theory Spec2Isabelle
  imports Complex_Main "HOL-Library.AList"
begin

section \<open>Python values used by the server\<close>

text \<open>
  Strings are lists of 8-bit characters; code points above 255 are outside the model.
  \<^verbatim>\<open>str.split()\<close> without arguments cuts at runs of white space and returns no empty
  word; the characters below are the ones \<^verbatim>\<open>str.isspace\<close> accepts among the first 256
  code points.
\<close>

definition isspace :: "char \<Rightarrow> bool" where
  "isspace c \<longleftrightarrow> (of_char c :: nat) \<in> {9, 10, 11, 12, 13, 28, 29, 30, 31, 32, 133, 160}"

function str_split :: "string \<Rightarrow> string list" where
  "str_split [] = []"
| "str_split (c # cs) =
     (if isspace c then str_split cs
      else (c # takeWhile (\<lambda>x. \<not> isspace x) cs) # str_split (dropWhile (\<lambda>x. \<not> isspace x) cs))"
  by pat_completeness auto
termination
  by (relation "measure length") (auto simp: length_dropWhile_le less_Suc_eq_le)

text \<open>\<^verbatim>\<open>" ".join(words)\<close>.\<close>

fun str_join :: "string list \<Rightarrow> string" where
  "str_join [] = []"
| "str_join [w] = w"
| "str_join (w # v # ws) = w @ '' '' @ str_join (v # ws)"

text \<open>
  The exceptions the server code can raise; \<open>SessionNotFound\<close> is the error of a lookup in
  the origin store that finds nothing.
\<close>

datatype error =
    ValueError string
  | TypeError
  | KeyError string
  | UnpicklingError
  | SessionNotFound

text \<open>\<^verbatim>\<open>list.remove(x)\<close> deletes the first occurrence and raises when there is none.\<close>

definition list_remove :: "string \<Rightarrow> string list \<Rightarrow> error + string list" where
  "list_remove x xs =
     (if x \<in> set xs then Inr (remove1 x xs) else Inl (ValueError ''list.remove(x): x not in list''))"

section \<open>The coordination store\<close>

text \<open>
  The Redis server is reached through three single-key commands. A value is a string, the
  expiry passed as \<^verbatim>\<open>ex=\<close> is recorded beside it, and a \<^verbatim>\<open>SET\<close> without expiry clears
  an earlier one. Keys running out of time and writes of other instances happen between
  two operations of this instance: every statement below holds for any store, so they are
  covered by taking the store as it is when the operation starts. \<open>refused\<close> names the
  keys whose writes the store does not accept at the moment; the client then returns a
  false result, which is what the server code tests for.
\<close>

record redis_db =
  kv :: "string \<rightharpoonup> string"
  expire :: "string \<rightharpoonup> nat"
  refused :: "string \<Rightarrow> bool"

definition redis_get :: "string \<Rightarrow> redis_db \<Rightarrow> string option" where
  "redis_get k r = kv r k"

definition redis_set :: "string \<Rightarrow> string \<Rightarrow> nat option \<Rightarrow> redis_db \<Rightarrow> bool \<times> redis_db" where
  "redis_set k v ex r =
     (if refused r k then (False, r)
      else (True, r\<lparr>kv := (kv r)(k \<mapsto> v), expire := (expire r)(k := ex)\<rparr>))"

text \<open>\<^verbatim>\<open>delete\<close> returns the number of keys it removed: 0 for a key that is not there.\<close>

definition redis_delete :: "string \<Rightarrow> redis_db \<Rightarrow> nat \<times> redis_db" where
  "redis_delete k r =
     (if refused r k \<or> kv r k = None then (0, r)
      else (1, r\<lparr>kv := (kv r)(k := None), expire := (expire r)(k := None)\<rparr>))"

section \<open>The bot manager\<close>

text \<open>
  A loaded bot is an object of the conversational engine; the string stands for what it
  holds. \<^verbatim>\<open>cloudpickle\<close> is an external library, taken as a parameter: \<open>loads\<close> gives the
  object a byte string is the pickle of, and nothing for bytes that are no pickle (the
  library then raises \<^verbatim>\<open>UnpicklingError\<close>); \<open>dumps\<close> gives the bytes it writes for an
  object. Nothing is assumed of the two.
\<close>

datatype rasa_bot = RasaBot string

record pickle =
  loads :: "string \<Rightarrow> rasa_bot option"
  dumps :: "rasa_bot \<Rightarrow> string"

text \<open>
  Queues, events and worker processes are objects shared between the manager and the
  workers, so they live in stores indexed by object identity. A \<^verbatim>\<open>RasaBotProcess\<close> is
  built from its two queues, its two events and the bot.
\<close>

datatype proc_state = Running | Terminated

record process =
  proc_questions :: nat
  proc_answers :: nat
  proc_new_question :: nat
  proc_new_answer :: nat
  proc_bot :: rasa_bot
  proc_state :: proc_state

text \<open>The dictionary \<^verbatim>\<open>bot_data\<close> built by \<^verbatim>\<open>_start_bot_process\<close>.\<close>

record bot_data =
  bot_instance :: nat
  answers_queue :: nat
  questions_queue :: nat
  new_question_event :: nat
  new_answer_event :: nat
  last_time_update :: int

text \<open>
  The state one \<^verbatim>\<open>BotManager\<close> works on. \<open>pool\<close> is the dictionary \<^verbatim>\<open>_pool\<close> in
  insertion order (the order \<^verbatim>\<open>items()\<close> iterates in); \<open>database\<close> is the table behind
  the \<^verbatim>\<open>Bot\<close> model, from uuid to the pickled bot, and \<open>db_queries\<close> counts the queries
  sent to it; \<open>timers\<close> counts the \<^verbatim>\<open>Timer\<close>s started so far. Times are
  microseconds.
\<close>

record manager =
  pool :: "(string \<times> bot_data) list"
  instance_ip :: string
  redis :: redis_db
  database :: "string \<rightharpoonup> string"
  db_queries :: nat
  queues :: "nat \<Rightarrow> string list"
  events :: "nat \<Rightarrow> bool"
  procs :: "nat \<rightharpoonup> process"
  next_obj :: nat
  timers :: nat

definition five_minutes :: int where
  "five_minutes = 5 * 60 * 1000000"

definition bot_key :: "string \<Rightarrow> string" where
  "bot_key bot_uuid = ''BOT-'' @ bot_uuid"

definition server_key :: "string \<Rightarrow> string" where
  "server_key ip = ''SERVER-'' @ ip"

definition server_alive_key :: "string \<Rightarrow> string" where
  "server_alive_key ip = ''SERVER-ALIVE-'' @ ip"

definition servers_available_key :: string where
  "servers_available_key = ''SERVERS_INSTANCES_AVAILABLES''"

subsection \<open>Registry operations\<close>

definition get_bot_redis :: "string \<Rightarrow> manager \<Rightarrow> string option" where
  "get_bot_redis bot_uuid s = redis_get bot_uuid (redis s)"

text \<open>The result of the \<^verbatim>\<open>SET\<close> is returned to a caller that drops it.\<close>

definition set_bot_redis :: "string \<Rightarrow> string \<Rightarrow> manager \<Rightarrow> bool \<times> manager" where
  "set_bot_redis bot_uuid pickled s =
     (let (ok, r) = redis_set bot_uuid pickled None (redis s) in (ok, s\<lparr>redis := r\<rparr>))"

text \<open>
  \<^verbatim>\<open>_set_bot_in_instance_redis\<close>: \<^verbatim>\<open>str(None, "utf-8")\<close> raises \<^verbatim>\<open>TypeError\<close> when the
  instance's list is not in the store.
\<close>

definition set_bot_in_instance_redis :: "string \<Rightarrow> manager \<Rightarrow> (error + unit) \<times> manager" where
  "set_bot_in_instance_redis bot_uuid s =
     (case redis_set (bot_key bot_uuid) (instance_ip s) (Some 70) (redis s) of
        (True, r1) \<Rightarrow>
          (case redis_get (server_key (instance_ip s)) r1 of
             None \<Rightarrow> (Inl TypeError, s\<lparr>redis := r1\<rparr>)
           | Some v \<Rightarrow>
               (let server_bots = str_split v @ [bot_key bot_uuid];
                    server_bots = str_join server_bots
                in case redis_set (server_key (instance_ip s)) server_bots None r1 of
                     (True, r2) \<Rightarrow> (Inr (), s\<lparr>redis := r2\<rparr>)
                   | (False, r2) \<Rightarrow>
                       (Inl (ValueError ''Error save bot in instance redis''), s\<lparr>redis := r2\<rparr>)))
      | (False, r1) \<Rightarrow> (Inl (ValueError ''Error save bot in instance redis''), s\<lparr>redis := r1\<rparr>))"

text \<open>
  \<^verbatim>\<open>_set_instance_redis\<close>; the address read from the metadata service is the argument.
  The second \<^verbatim>\<open>SET\<close> is not sent when the first one fails (\<^verbatim>\<open>and\<close>).
\<close>

definition set_instance_redis :: "string \<Rightarrow> manager \<Rightarrow> (error + unit) \<times> manager" where
  "set_instance_redis local_ipv4 s0 =
     (let s = s0\<lparr>instance_ip := local_ipv4\<rparr>;
          update_servers =
            (case redis_get servers_available_key (redis s) of
               Some v \<Rightarrow> str_split v
             | None \<Rightarrow> []);
          update_servers = update_servers @ [instance_ip s];
          update_servers = str_join update_servers
      in case redis_set (server_key (instance_ip s)) [] None (redis s) of
           (True, r1) \<Rightarrow>
             (case redis_set servers_available_key update_servers None r1 of
                (True, r2) \<Rightarrow> (Inr (), s\<lparr>redis := r2\<rparr>)
              | (False, r2) \<Rightarrow>
                  (Inl (ValueError ''Error save instance in redis''), s\<lparr>redis := r2\<rparr>))
         | (False, r1) \<Rightarrow> (Inl (ValueError ''Error save instance in redis''), s\<lparr>redis := r1\<rparr>))"

text \<open>
  \<^verbatim>\<open>_remove_bot_instance_redis\<close>: a \<^verbatim>\<open>delete\<close> that removed nothing counts as a failure;
  \<^verbatim>\<open>list.remove\<close> raises when the list does not hold the key.
\<close>

definition remove_bot_instance_redis :: "string \<Rightarrow> manager \<Rightarrow> (error + unit) \<times> manager" where
  "remove_bot_instance_redis bot_uuid s =
     (case redis_delete (bot_key bot_uuid) (redis s) of
        (0, r1) \<Rightarrow> (Inl (ValueError ''Error remove bot in instance redis''), s\<lparr>redis := r1\<rparr>)
      | (_, r1) \<Rightarrow>
          (case redis_get (server_key (instance_ip s)) r1 of
             None \<Rightarrow> (Inl TypeError, s\<lparr>redis := r1\<rparr>)
           | Some v \<Rightarrow>
               (case list_remove (bot_key bot_uuid) (str_split v) of
                  Inl e \<Rightarrow> (Inl e, s\<lparr>redis := r1\<rparr>)
                | Inr server_bot_list \<Rightarrow>
                    (case redis_set (server_key (instance_ip s)) (str_join server_bot_list) None r1 of
                       (True, r2) \<Rightarrow> (Inr (), s\<lparr>redis := r2\<rparr>)
                     | (False, r2) \<Rightarrow>
                         (Inl (ValueError ''Error remove bot in instance redis''),
                          s\<lparr>redis := r2\<rparr>)))))"

definition set_server_alive :: "manager \<Rightarrow> (error + unit) \<times> manager" where
  "set_server_alive s =
     (case redis_set (server_alive_key (instance_ip s)) ''True'' (Some 70) (redis s) of
        (True, r1) \<Rightarrow> (Inr (), s\<lparr>redis := r1\<rparr>)
      | (False, r1) \<Rightarrow> (Inl (ValueError ''Error on ping redis''), s\<lparr>redis := r1\<rparr>))"

text \<open>
  \<^verbatim>\<open>_set_usage_memory\<close>; the percentage read from \<^verbatim>\<open>psutil\<close> is the argument. The
  \<^verbatim>\<open>remove\<close> is guarded by the membership test, so it cannot raise here.
\<close>

definition set_usage_memory :: "real \<Rightarrow> manager \<Rightarrow> (error + unit) \<times> manager" where
  "set_usage_memory usage_memory s =
     (let update_servers =
            (case redis_get servers_available_key (redis s) of
               Some v \<Rightarrow> str_split v
             | None \<Rightarrow> []);
          update_servers =
            (if usage_memory \<le> 80 then
               (if instance_ip s \<notin> set update_servers then update_servers @ [instance_ip s]
                else update_servers)
             else
               (if instance_ip s \<in> set update_servers then remove1 (instance_ip s) update_servers
                else update_servers));
          update_servers = str_join update_servers
      in case redis_set servers_available_key update_servers None (redis s) of
           (True, r1) \<Rightarrow> (Inr (), s\<lparr>redis := r1\<rparr>)
         | (False, r1) \<Rightarrow> (Inl (ValueError ''Error on set servers availables''), s\<lparr>redis := r1\<rparr>))"

subsection \<open>Workers and resolution\<close>

text \<open>
  \<^verbatim>\<open>_start_bot_process\<close> creates two queues, two events and the process, in this order,
  starts the process and stamps the entry with the current time.
\<close>

definition start_bot_process :: "int \<Rightarrow> rasa_bot \<Rightarrow> manager \<Rightarrow> bot_data \<times> manager" where
  "start_bot_process now rbot s =
     (let n = next_obj s;
          answers_q = n;
          questions_q = n + 1;
          new_question_ev = n + 2;
          new_answer_ev = n + 3;
          pid = n + 4;
          p = \<lparr>proc_questions = questions_q, proc_answers = answers_q,
               proc_new_question = new_question_ev, proc_new_answer = new_answer_ev,
               proc_bot = rbot, proc_state = Running\<rparr>;
          bd = \<lparr>bot_instance = pid, answers_queue = answers_q, questions_queue = questions_q,
                new_question_event = new_question_ev, new_answer_event = new_answer_ev,
                last_time_update = now\<rparr>
      in (bd,
          s\<lparr>queues := (queues s)(answers_q := [], questions_q := []),
            events := (events s)(new_question_ev := False, new_answer_ev := False),
            procs := (procs s)(pid \<mapsto> p),
            next_obj := n + 5\<rparr>))"

text \<open>
  Modelled from the spec: the model class \<^verbatim>\<open>Bot\<close> (module \<^verbatim>\<open>models.models\<close>, not among the
  sources), as used in \<^verbatim>\<open>Bot.get(Bot.uuid == bot_uuid)\<close> followed by \<^verbatim>\<open>instance.bot\<close>.
  The origin store gives the serialized model of a session key, or fails with the
  not-found error when it has no definition for the key.
\<close>

definition bot_get :: "string \<Rightarrow> manager \<Rightarrow> (error + string) \<times> manager" where
  "bot_get bot_uuid s =
     (let s1 = s\<lparr>db_queries := Suc (db_queries s)\<rparr>
      in case database s bot_uuid of
           None \<Rightarrow> (Inl SessionNotFound, s1)
         | Some b \<Rightarrow> (Inr b, s1))"

text \<open>
  \<^verbatim>\<open>_get_bot_data\<close>; \<open>now\<close> is what the clock shows if a worker is started. A
  \<^verbatim>\<open>cloudpickle.loads\<close> that raises leaves the method before anything is started or
  inserted.
\<close>

definition get_bot_data ::
  "pickle \<Rightarrow> int \<Rightarrow> string \<Rightarrow> manager \<Rightarrow> (error + bot_data) \<times> manager"
where
  "get_bot_data pk now bot_uuid s =
     (case map_of (pool s) bot_uuid of
        Some bot_data \<Rightarrow> (Inr bot_data, s)
      | None \<Rightarrow>
          (case get_bot_redis bot_uuid s of
             Some redis_bot \<Rightarrow>
               (case loads pk redis_bot of
                  None \<Rightarrow> (Inl UnpicklingError, s)
                | Some redis_bot \<Rightarrow>
                    (let (bot_data, s1) = start_bot_process now redis_bot s;
                         s2 = s1\<lparr>pool := AList.update bot_uuid bot_data (pool s1)\<rparr>
                     in case set_bot_in_instance_redis bot_uuid s2 of
                          (Inl e, s3) \<Rightarrow> (Inl e, s3)
                        | (Inr _, s3) \<Rightarrow> (Inr bot_data, s3)))
           | None \<Rightarrow>
               (case bot_get bot_uuid s of
                  (Inl e, s1) \<Rightarrow> (Inl e, s1)
                | (Inr instance_bot, s1) \<Rightarrow>
                    (case loads pk instance_bot of
                       None \<Rightarrow> (Inl UnpicklingError, s1)
                     | Some rbot \<Rightarrow>
                         (let (_, s2) = set_bot_redis bot_uuid (dumps pk rbot) s1;
                              (bot_data, s3) = start_bot_process now rbot s2;
                              s4 = s3\<lparr>pool := AList.update bot_uuid bot_data (pool s3)\<rparr>
                          in case set_bot_in_instance_redis bot_uuid s4 of
                               (Inl e, s5) \<Rightarrow> (Inl e, s5)
                             | (Inr _, s5) \<Rightarrow> (Inr bot_data, s5))))))"

definition get_new_answer_event ::
  "pickle \<Rightarrow> int \<Rightarrow> string \<Rightarrow> manager \<Rightarrow> (error + nat) \<times> manager"
where
  "get_new_answer_event pk now bot_uuid s =
     (case get_bot_data pk now bot_uuid s of
        (Inl e, s1) \<Rightarrow> (Inl e, s1)
      | (Inr bd, s1) \<Rightarrow> (Inr (new_answer_event bd), s1))"

definition get_new_question_event ::
  "pickle \<Rightarrow> int \<Rightarrow> string \<Rightarrow> manager \<Rightarrow> (error + nat) \<times> manager"
where
  "get_new_question_event pk now bot_uuid s =
     (case get_bot_data pk now bot_uuid s of
        (Inl e, s1) \<Rightarrow> (Inl e, s1)
      | (Inr bd, s1) \<Rightarrow> (Inr (new_question_event bd), s1))"

definition get_questions_queue ::
  "pickle \<Rightarrow> int \<Rightarrow> string \<Rightarrow> manager \<Rightarrow> (error + nat) \<times> manager"
where
  "get_questions_queue pk now bot_uuid s =
     (case get_bot_data pk now bot_uuid s of
        (Inl e, s1) \<Rightarrow> (Inl e, s1)
      | (Inr bd, s1) \<Rightarrow> (Inr (questions_queue bd), s1))"

definition get_answers_queue ::
  "pickle \<Rightarrow> int \<Rightarrow> string \<Rightarrow> manager \<Rightarrow> (error + nat) \<times> manager"
where
  "get_answers_queue pk now bot_uuid s =
     (case get_bot_data pk now bot_uuid s of
        (Inl e, s1) \<Rightarrow> (Inl e, s1)
      | (Inr bd, s1) \<Rightarrow> (Inr (answers_queue bd), s1))"

subsection \<open>Asking a worker\<close>

text \<open>
  \<^verbatim>\<open>Queue.put\<close>, \<^verbatim>\<open>Event.set\<close> and \<^verbatim>\<open>Event.clear\<close> return at once.
\<close>

definition queue_put :: "nat \<Rightarrow> string \<Rightarrow> manager \<Rightarrow> manager" where
  "queue_put q x s = s\<lparr>queues := (queues s)(q := queues s q @ [x])\<rparr>"

definition event_set :: "nat \<Rightarrow> manager \<Rightarrow> manager" where
  "event_set e s = s\<lparr>events := (events s)(e := True)\<rparr>"

definition event_clear :: "nat \<Rightarrow> manager \<Rightarrow> manager" where
  "event_clear e s = s\<lparr>events := (events s)(e := False)\<rparr>"

text \<open>
  \<^verbatim>\<open>Event.wait()\<close> and \<^verbatim>\<open>Queue.get()\<close> are called without a timeout: the caller stays
  where it is while the rest of the system runs, for as long as the event is not set (the
  queue is empty). \<open>env\<close> is one step of everything else that runs meanwhile (the
  workers, the timer thread). A call that never returns has the value \<open>None\<close>.
\<close>

partial_function (option) event_wait :: "(manager \<Rightarrow> manager) \<Rightarrow> nat \<Rightarrow> manager \<Rightarrow> manager option"
where
  "event_wait env e s = (if events s e then Some s else event_wait env e (env s))"

partial_function (option) queue_get ::
  "(manager \<Rightarrow> manager) \<Rightarrow> nat \<Rightarrow> manager \<Rightarrow> (string \<times> manager) option"
where
  "queue_get env q s =
     (case queues s q of
        x # xs \<Rightarrow> Some (x, s\<lparr>queues := (queues s)(q := xs)\<rparr>)
      | [] \<Rightarrow> queue_get env q (env s))"

text \<open>
  \<^verbatim>\<open>self._pool[bot_uuid]['last_time_update'] = datetime.now()\<close>: the subscript raises
  \<^verbatim>\<open>KeyError\<close> for a key that is not in the pool.
\<close>

definition set_last_time_update :: "string \<Rightarrow> int \<Rightarrow> manager \<Rightarrow> (error + unit) \<times> manager" where
  "set_last_time_update bot_uuid now s =
     (case map_of (pool s) bot_uuid of
        None \<Rightarrow> (Inl (KeyError bot_uuid), s)
      | Some _ \<Rightarrow>
          (Inr (), s\<lparr>pool := AList.map_entry bot_uuid (\<lambda>b. b\<lparr>last_time_update := now\<rparr>) (pool s)\<rparr>))"

text \<open>
  \<^verbatim>\<open>ask\<close> up to the line before \<^verbatim>\<open>new_answer_event.wait()\<close>. It returns the answers
  queue and the answer event it holds at that point. \<open>now0\<close> is the clock's reading in
  a resolution that starts a worker, \<open>now\<close> the later reading stored as
  \<^verbatim>\<open>last_time_update\<close>.
\<close>

definition ask_send ::
  "pickle \<Rightarrow> int \<Rightarrow> int \<Rightarrow> string \<Rightarrow> string \<Rightarrow> manager \<Rightarrow> (error + nat \<times> nat) \<times> manager"
where
  "ask_send pk now0 now question bot_uuid s =
     (case get_questions_queue pk now0 bot_uuid s of
        (Inl e, s1) \<Rightarrow> (Inl e, s1)
      | (Inr questions_q, s1) \<Rightarrow>
     (case get_answers_queue pk now0 bot_uuid s1 of
        (Inl e, s2) \<Rightarrow> (Inl e, s2)
      | (Inr answers_q, s2) \<Rightarrow>
     (let s3 = queue_put questions_q question s2
      in case get_new_question_event pk now0 bot_uuid s3 of
        (Inl e, s4) \<Rightarrow> (Inl e, s4)
      | (Inr new_question_ev, s4) \<Rightarrow>
     (let s5 = event_set new_question_ev s4
      in case get_new_answer_event pk now0 bot_uuid s5 of
        (Inl e, s6) \<Rightarrow> (Inl e, s6)
      | (Inr new_answer_ev, s6) \<Rightarrow>
     (case set_last_time_update bot_uuid now s6 of
        (Inl e, s7) \<Rightarrow> (Inl e, s7)
      | (Inr _, s7) \<Rightarrow> (Inr (answers_q, new_answer_ev), s7))))))"

text \<open>The rest of \<^verbatim>\<open>ask\<close>: wait, clear, get.\<close>

definition ask_receive ::
  "(manager \<Rightarrow> manager) \<Rightarrow> nat \<Rightarrow> nat \<Rightarrow> manager \<Rightarrow> (string \<times> manager) option"
where
  "ask_receive env answers_q new_answer_ev s =
     (case event_wait env new_answer_ev s of
        None \<Rightarrow> None
      | Some s1 \<Rightarrow> queue_get env answers_q (event_clear new_answer_ev s1))"

definition ask ::
  "(manager \<Rightarrow> manager) \<Rightarrow> pickle \<Rightarrow> int \<Rightarrow> int \<Rightarrow> string \<Rightarrow> string \<Rightarrow> manager
   \<Rightarrow> ((error + string) \<times> manager) option"
where
  "ask env pk now0 now question bot_uuid s =
     (case ask_send pk now0 now question bot_uuid s of
        (Inl e, s1) \<Rightarrow> Some (Inl e, s1)
      | (Inr (answers_q, new_answer_ev), s1) \<Rightarrow>
          (case ask_receive env answers_q new_answer_ev s1 of
             None \<Rightarrow> None
           | Some (answer, s2) \<Rightarrow> Some (Inr answer, s2)))"

text \<open>
  Modelled from the spec: the main loop of \<^verbatim>\<open>RasaBotProcess\<close> (module \<^verbatim>\<open>rasabot\<close>, not
  among the sources). One turn of a running worker whose question signal is set reads one
  item from its inbound queue, computes the answer with the engine, writes it to the
  outbound queue, sets the answer signal and clears the question signal. A worker that
  is terminated, or has nothing to read, does nothing.
\<close>

definition worker_step :: "(rasa_bot \<Rightarrow> string \<Rightarrow> string) \<Rightarrow> nat \<Rightarrow> manager \<Rightarrow> manager" where
  "worker_step engine pid s =
     (case procs s pid of
        None \<Rightarrow> s
      | Some p \<Rightarrow>
          (if proc_state p = Running \<and> events s (proc_new_question p) then
             (case queues s (proc_questions p) of
                [] \<Rightarrow> s
              | question # rest \<Rightarrow>
                  event_clear (proc_new_question p)
                    (event_set (proc_new_answer p)
                      (queue_put (proc_answers p) (engine (proc_bot p) question)
                        (s\<lparr>queues := (queues s)(proc_questions p := rest)\<rparr>))))
           else s))"

subsection \<open>The eviction sweep\<close>

definition start_garbage_collector :: "manager \<Rightarrow> manager" where
  "start_garbage_collector s = s\<lparr>timers := Suc (timers s)\<rparr>"

text \<open>\<^verbatim>\<open>Process.terminate()\<close>.\<close>

definition terminate :: "nat \<Rightarrow> manager \<Rightarrow> manager" where
  "terminate pid s =
     (case procs s pid of
        None \<Rightarrow> s
      | Some p \<Rightarrow> s\<lparr>procs := (procs s)(pid \<mapsto> p\<lparr>proc_state := Terminated\<rparr>)\<rparr>)"

text \<open>
  The \<^verbatim>\<open>for\<close> loop of \<^verbatim>\<open>garbage_collector\<close> over \<^verbatim>\<open>self._pool.items()\<close>. The clock is
  read once for each entry: \<open>now_at uuid\<close> is its reading when the entry of \<open>uuid\<close> is
  examined. \<^verbatim>\<open>not a >= b\<close> is \<^verbatim>\<open>not (a >= b)\<close>. An exception leaves the loop.
\<close>

fun gc_loop ::
  "(string \<Rightarrow> int) \<Rightarrow> (string \<times> bot_data) list \<Rightarrow> (string \<times> bot_data) list \<Rightarrow> manager
   \<Rightarrow> (error + (string \<times> bot_data) list) \<times> manager"
where
  "gc_loop now_at [] new_pool s = (Inr new_pool, s)"
| "gc_loop now_at ((uuid, bot_inst) # items) new_pool s =
     (if \<not> (now_at uuid - last_time_update bot_inst \<ge> five_minutes) then
        (case set_bot_in_instance_redis uuid s of
           (Inl e, s1) \<Rightarrow> (Inl e, s1)
         | (Inr _, s1) \<Rightarrow> gc_loop now_at items (AList.update uuid bot_inst new_pool) s1)
      else
        (case remove_bot_instance_redis uuid s of
           (Inl e, s1) \<Rightarrow> (Inl e, s1)
         | (Inr _, s1) \<Rightarrow> gc_loop now_at items new_pool (terminate (bot_instance bot_inst) s1)))"

definition garbage_collector :: "(string \<Rightarrow> int) \<Rightarrow> real \<Rightarrow> manager \<Rightarrow> (error + unit) \<times> manager" where
  "garbage_collector now_at usage_memory s =
     (case set_server_alive s of
        (Inl e, s1) \<Rightarrow> (Inl e, s1)
      | (Inr _, s1) \<Rightarrow>
     (case gc_loop now_at (pool s1) [] s1 of
        (Inl e, s2) \<Rightarrow> (Inl e, s2)
      | (Inr new_pool, s2) \<Rightarrow>
     (let s3 = s2\<lparr>pool := new_pool\<rparr>
      in case set_usage_memory usage_memory s3 of
        (Inl e, s4) \<Rightarrow> (Inl e, s4)
      | (Inr _, s4) \<Rightarrow> (Inr (), start_garbage_collector s4))))"

text \<open>\<^verbatim>\<open>BotManager.__init__\<close>.\<close>

definition init :: "string \<Rightarrow> manager \<Rightarrow> (error + unit) \<times> manager" where
  "init local_ipv4 s =
     (case set_instance_redis local_ipv4 s of
        (Inl e, s1) \<Rightarrow> (Inl e, s1)
      | (Inr _, s1) \<Rightarrow>
     (case set_server_alive s1 of
        (Inl e, s2) \<Rightarrow> (Inl e, s2)
      | (Inr _, s2) \<Rightarrow> (Inr (), start_garbage_collector s2)))"

section \<open>NLU worker: the interpreter cache\<close>








section \<open>Evaluation worker: filtering intent results\<close>

text \<open>
  \<^verbatim>\<open>evaluate.py\<close> works on rasa's named tuple \<^verbatim>\<open>IntentEvaluationResult\<close> with the
  fields \<^verbatim>\<open>target\<close>, \<^verbatim>\<open>prediction\<close>, \<^verbatim>\<open>message\<close> and \<^verbatim>\<open>confidence\<close>. Target and
  prediction are strings or \<^verbatim>\<open>None\<close>.
\<close>

record intent_evaluation_result =
  target :: "string option"
  prediction :: "string option"
  message :: "string option"
  confidence :: real

text \<open>
  The body of the \<^verbatim>\<open>for\<close> loop of \<^verbatim>\<open>remove_empty_intent_examples\<close>: the loop variable
  is rebound by \<^verbatim>\<open>_replace\<close> when the prediction is \<^verbatim>\<open>None\<close>, and appended to
  \<^verbatim>\<open>filtered\<close> when its target is neither the empty string nor \<^verbatim>\<open>None\<close>.
\<close>

fun remove_empty_loop ::
  "intent_evaluation_result list \<Rightarrow> intent_evaluation_result list \<Rightarrow> intent_evaluation_result list"
where
  "remove_empty_loop [] filtered = filtered"
| "remove_empty_loop (r # rs) filtered =
     (let r1 = (if prediction r = None then r\<lparr>prediction := Some ''no predicted''\<rparr> else r)
      in if target r1 \<noteq> Some '''' \<and> target r1 \<noteq> None
         then remove_empty_loop rs (filtered @ [r1])
         else remove_empty_loop rs filtered)"

definition remove_empty_intent_examples ::
  "intent_evaluation_result list \<Rightarrow> intent_evaluation_result list"
where
  "remove_empty_intent_examples intent_results = remove_empty_loop intent_results []"

text \<open>What the claim calls a kept result, and what happens to its prediction.\<close>

definition has_target :: "intent_evaluation_result \<Rightarrow> bool" where
  "has_target r \<longleftrightarrow> target r \<noteq> None \<and> target r \<noteq> Some ''''"

definition fill_prediction :: "intent_evaluation_result \<Rightarrow> intent_evaluation_result" where
  "fill_prediction r =
     r\<lparr>prediction := (case prediction r of None \<Rightarrow> Some ''no predicted'' | Some p \<Rightarrow> Some p)\<rparr>"

section \<open>Notions used in the statements\<close>

text \<open>
  An entry is fresh at a sweep when its last activity is less than five minutes before the
  clock reading taken for it.
\<close>

definition fresh :: "(string \<Rightarrow> int) \<Rightarrow> string \<times> bot_data \<Rightarrow> bool" where
  "fresh now_at = (\<lambda>(uuid, b). now_at uuid - last_time_update b < five_minutes)"

definition running :: "manager \<Rightarrow> nat \<Rightarrow> bool" where
  "running s pid = (case procs s pid of None \<Rightarrow> False | Some p \<Rightarrow> proc_state p = Running)"

text \<open>
  A word is what \<^verbatim>\<open>split\<close> gives back after \<^verbatim>\<open>join\<close>: not empty and free of white space.
\<close>

definition word :: "string \<Rightarrow> bool" where
  "word w \<longleftrightarrow> w \<noteq> [] \<and> (\<forall>c \<in> set w. \<not> isspace c)"

text \<open>
  The session list of the instance and the list of available instances, as the code reads
  them from the store.
\<close>

definition server_bots :: "manager \<Rightarrow> string list" where
  "server_bots s =
     (case kv (redis s) (server_key (instance_ip s)) of None \<Rightarrow> [] | Some v \<Rightarrow> str_split v)"

definition available :: "manager \<Rightarrow> string list" where
  "available s =
     (case kv (redis s) servers_available_key of None \<Rightarrow> [] | Some v \<Rightarrow> str_split v)"

text \<open>
  The list \<^verbatim>\<open>_set_usage_memory\<close> writes back, from the list it read: the instance is added
  when it is not there and memory usage is at most 80 percent, and its first occurrence is
  removed when memory usage is higher.
\<close>

definition updated_servers :: "real \<Rightarrow> string \<Rightarrow> string list \<Rightarrow> string list" where
  "updated_servers usage_memory ip ws =
     (if usage_memory \<le> 80 then (if ip \<notin> set ws then ws @ [ip] else ws)
      else (if ip \<in> set ws then remove1 ip ws else ws))"

text \<open>
  A state in which no step of a sweep can fail: the store refuses no write, the session
  list of the instance is there, no key of the pool has white space in it, and the owner
  key of every entry that is not fresh is in the store and in the session list.
\<close>

definition sweepable :: "(string \<Rightarrow> int) \<Rightarrow> manager \<Rightarrow> bool" where
  "sweepable now_at s \<longleftrightarrow>
     (\<forall>k. \<not> refused (redis s) k)
     \<and> kv (redis s) (server_key (instance_ip s)) \<noteq> None
     \<and> (\<forall>(uuid, b) \<in> set (pool s).
           word (bot_key uuid)
           \<and> (\<not> fresh now_at (uuid, b) \<longrightarrow>
                kv (redis s) (bot_key uuid) \<noteq> None \<and> bot_key uuid \<in> set (server_bots s)))"

text \<open>
  What a registry operation leaves alone: everything but the store, and in the store the
  set of refused keys.
\<close>

definition same_but_redis :: "manager \<Rightarrow> manager \<Rightarrow> bool" where
  "same_but_redis s s' \<longleftrightarrow> s' = s\<lparr>redis := redis s'\<rparr> \<and> refused (redis s') = refused (redis s)"

text \<open>
  The store takes the two writes of a claim: neither key is refused, and the list of the
  instance is there to be read.
\<close>

definition claim_accepted :: "manager \<Rightarrow> string \<Rightarrow> bool" where
  "claim_accepted s bot_uuid \<longleftrightarrow>
     \<not> refused (redis s) (bot_key bot_uuid)
     \<and> kv (redis s) (server_key (instance_ip s)) \<noteq> None
     \<and> \<not> refused (redis s) (server_key (instance_ip s))"

text \<open>
  The state in which \<^verbatim>\<open>ask\<close> starts to wait, from the state after resolution: the question
  is at the end of the entry's questions queue, the question event is set and the entry's
  \<^verbatim>\<open>last_time_update\<close> is the current time.
\<close>

definition asked :: "string \<Rightarrow> bot_data \<Rightarrow> string \<Rightarrow> int \<Rightarrow> manager \<Rightarrow> manager" where
  "asked bot_uuid bd question now s =
     s\<lparr>queues := (queues s)(questions_queue bd := queues s (questions_queue bd) @ [question]),
       events := (events s)(new_question_event bd := True),
       pool := AList.map_entry bot_uuid (\<lambda>b. b\<lparr>last_time_update := now\<rparr>) (pool s)\<rparr>"

section \<open>Sample states\<close>

text \<open>
  A store that holds nothing and accepts every write, and a process that has not run
  \<^verbatim>\<open>__init__\<close> yet, with two bots in the database; the objects it creates are numbered
  from 10.
\<close>

definition empty_redis :: redis_db where
  "empty_redis = \<lparr>kv = Map.empty, expire = Map.empty, refused = (\<lambda>_. False)\<rparr>"

definition new_manager :: manager where
  "new_manager =
     \<lparr>pool = [], instance_ip = [], redis = empty_redis,
      database = [''s1'' \<mapsto> ''model-1'', ''s2'' \<mapsto> ''model-2''], db_queries = 0,
      queues = (\<lambda>_. []), events = (\<lambda>_. False), procs = Map.empty, next_obj = 10, timers = 0\<rparr>"

definition minute :: int where
  "minute = 60 * 1000000"

text \<open>
  A pickle library for the samples: the bytes in the database and the bytes it writes are
  different pickles of the same bot, and every other byte string is no pickle.
\<close>

definition sample_pickle :: pickle where
  "sample_pickle =
     \<lparr>loads = (\<lambda>b. if b = ''model-1'' \<or> b = ''snapshot-1'' then Some (RasaBot ''bot-1'')
                    else if b = ''model-2'' \<or> b = ''snapshot-2'' then Some (RasaBot ''bot-2'')
                    else None),
      dumps = (\<lambda>rb. if rb = RasaBot ''bot-1'' then ''snapshot-1'' else ''snapshot-2'')\<rparr>"

text \<open>
  The instance 10.0.0.1 after \<^verbatim>\<open>__init__\<close>; after the first resolution of \<open>s1\<close> at time 0;
  after the first resolution of \<open>s2\<close> four minutes later.
\<close>

definition started :: manager where
  "started = snd (init ''10.0.0.1'' new_manager)"

definition one_session :: manager where
  "one_session = snd (get_bot_data sample_pickle 0 ''s1'' started)"

definition two_sessions :: manager where
  "two_sessions = snd (get_bot_data sample_pickle (4 * minute) ''s2'' one_session)"

text \<open>The entries the two resolutions create.\<close>

definition entry1 :: bot_data where
  "entry1 = \<lparr>bot_instance = 14, answers_queue = 10, questions_queue = 11, new_question_event = 12,
             new_answer_event = 13, last_time_update = 0\<rparr>"

definition entry2 :: bot_data where
  "entry2 = \<lparr>bot_instance = 19, answers_queue = 15, questions_queue = 16, new_question_event = 17,
             new_answer_event = 18, last_time_update = 4 * minute\<rparr>"

text \<open>
  The same instance started again on the store it left behind; a second instance,
  10.0.0.2, on the store of the first, with a database that holds no bot.
\<close>

definition restarted :: manager where
  "restarted = snd (init ''10.0.0.1'' (new_manager\<lparr>redis := redis started\<rparr>))"

definition second_instance :: manager where
  "second_instance =
     snd (init ''10.0.0.2'' (new_manager\<lparr>redis := redis one_session, database := Map.empty\<rparr>))"

text \<open>A store that refuses the writes to one key; a store in which one key has run out.\<close>

definition refusing :: "string \<Rightarrow> manager \<Rightarrow> manager" where
  "refusing k s = s\<lparr>redis := (redis s)\<lparr>refused := (\<lambda>x. x = k)\<rparr>\<rparr>"

definition lapsed :: "string \<Rightarrow> manager \<Rightarrow> manager" where
  "lapsed k s = s\<lparr>redis := (redis s)\<lparr>kv := (kv (redis s))(k := None)\<rparr>\<rparr>"

text \<open>A database in which the blob of the bot \<open>s3\<close> is damaged.\<close>

definition corrupted :: "manager \<Rightarrow> manager" where
  "corrupted s = s\<lparr>database := (database s)(''s3'' \<mapsto> ''not a pickle'')\<rparr>"

text \<open>
  Two instances that serve the same session. The instance 10.0.0.2 resolves \<open>s1\<close> from
  the store one minute after 10.0.0.1 did, and owns it from then on. \<open>first_swept\<close> is
  10.0.0.1 after its sweep at six minutes, on the store as 10.0.0.2 left it;
  \<open>second_later\<close> is 10.0.0.2 when its own sweep begins after that, on the store that
  sweep left. No key has run out and the store refuses nothing.
\<close>

definition shared_session :: manager where
  "shared_session = snd (get_bot_data sample_pickle minute ''s1'' second_instance)"

definition first_swept :: manager where
  "first_swept =
     snd (garbage_collector (\<lambda>_. 6 * minute) 50 (one_session\<lparr>redis := redis shared_session\<rparr>))"

definition second_later :: manager where
  "second_later = shared_session\<lparr>redis := redis first_swept\<rparr>"

text \<open>An engine that gives the same answer to every question.\<close>

definition stub_engine :: "rasa_bot \<Rightarrow> string \<Rightarrow> string" where
  "stub_engine b question = ''stub-answer''"

text \<open>
  The state in which the first \<^verbatim>\<open>ask\<close> for \<open>s1\<close> returns, at time 1, when the only thing
  that runs meanwhile is the worker of \<open>s1\<close> with the stub engine.
\<close>

definition answered :: manager where
  "answered =
     (worker_step stub_engine 14 (asked ''s1'' entry1 ''hello'' 1 one_session))
       \<lparr>events := (events (worker_step stub_engine 14 (asked ''s1'' entry1 ''hello'' 1 one_session)))
                     (13 := False),
        queues := (queues (worker_step stub_engine 14 (asked ''s1'' entry1 ''hello'' 1 one_session)))
                     (10 := [])\<rparr>"




lemmas eval_defs = init_def set_instance_redis_def set_server_alive_def start_garbage_collector_def
  redis_set_def redis_get_def redis_delete_def get_bot_data_def get_bot_redis_def set_bot_redis_def
  bot_get_def start_bot_process_def set_bot_in_instance_redis_def remove_bot_instance_redis_def
  set_usage_memory_def garbage_collector_def terminate_def list_remove_def
  bot_key_def server_key_def server_alive_key_def servers_available_key_def
  sample_pickle_def isspace_def five_minutes_def minute_def Let_def
  entry1_def entry2_def

section \<open>Splitting and joining\<close>

lemma isspace_space [simp]: "isspace CHR '' ''"
  by (simp add: isspace_def)

lemma str_split_word_sep:
  assumes "word w" and "isspace sp"
  shows "str_split (w @ sp # s) = w # str_split s"
proof -
  from assms(1) obtain c cs where w: "w = c # cs" and c: "\<not> isspace c"
    and cs: "\<forall>x \<in> set cs. \<not> isspace x"
    by (cases w) (auto simp add: word_def)
  from cs assms(2) have tw: "takeWhile (\<lambda>x. \<not> isspace x) (cs @ sp # s) = cs"
    by (simp add: takeWhile_tail)
  from cs assms(2) have dw: "dropWhile (\<lambda>x. \<not> isspace x) (cs @ sp # s) = sp # s"
    by (simp add: dropWhile_append2)
  have "str_split (w @ sp # s) = str_split (c # (cs @ sp # s))"
    by (simp add: w)
  also have "\<dots> = (c # cs) # str_split (sp # s)"
    using c by (simp only: str_split.simps tw dw if_False)
  also have "\<dots> = w # str_split s"
    using assms(2) by (simp add: w)
  finally show ?thesis .
qed

lemma str_split_word: "word w \<Longrightarrow> str_split w = [w]"
proof -
  assume "word w"
  then obtain c cs where w: "w = c # cs" and c: "\<not> isspace c"
    and cs: "\<forall>x \<in> set cs. \<not> isspace x"
    by (cases w) (auto simp add: word_def)
  from cs have tw: "takeWhile (\<lambda>x. \<not> isspace x) cs = cs"
    and dw: "dropWhile (\<lambda>x. \<not> isspace x) cs = []"
    by simp_all
  have "str_split (c # cs) = (c # cs) # str_split []"
    using c by (simp only: str_split.simps tw dw if_False)
  then show ?thesis by (simp add: w)
qed

lemma str_split_join: "\<forall>w \<in> set ws. word w \<Longrightarrow> str_split (str_join ws) = ws"
proof (induction ws rule: str_join.induct)
  case 1
  show ?case by simp
next
  case (2 w)
  then show ?case by (simp add: str_split_word)
next
  case (3 w v ws)
  then have "str_split (w @ CHR '' '' # str_join (v # ws)) = w # str_split (str_join (v # ws))"
    by (intro str_split_word_sep) simp_all
  with 3 show ?case by simp
qed

lemma str_split_words: "w \<in> set (str_split s) \<Longrightarrow> word w"
proof (induction s arbitrary: w rule: str_split.induct)
  case 1
  then show ?case by simp
next
  case (2 c cs)
  show ?case
  proof (cases "isspace c")
    case True
    with "2.prems" have "w \<in> set (str_split cs)" by simp
    with True show ?thesis by (rule "2.IH"(1))
  next
    case False
    with "2.prems" have "w = c # takeWhile (\<lambda>x. \<not> isspace x) cs
        \<or> w \<in> set (str_split (dropWhile (\<lambda>x. \<not> isspace x) cs))"
      by simp
    then show ?thesis
    proof
      assume w: "w = c # takeWhile (\<lambda>x. \<not> isspace x) cs"
      have "\<forall>x \<in> set (takeWhile (\<lambda>x. \<not> isspace x) cs). \<not> isspace x"
        by (auto dest: set_takeWhileD)
      with w False show ?thesis by (simp add: word_def)
    next
      assume "w \<in> set (str_split (dropWhile (\<lambda>x. \<not> isspace x) cs))"
      with False show ?thesis by (rule "2.IH"(2))
    qed
  qed
qed

section \<open>Registry operations\<close>

lemma bot_key_inj [simp]: "bot_key u = bot_key v \<longleftrightarrow> u = v"
  by (simp add: bot_key_def)

lemma bot_key_neq_server_key [simp]: "bot_key u \<noteq> server_key ip" "server_key ip \<noteq> bot_key u"
  by (simp_all add: bot_key_def server_key_def)

lemma bot_key_neq_alive_key [simp]: "bot_key u \<noteq> server_alive_key ip" "server_alive_key ip \<noteq> bot_key u"
  by (simp_all add: bot_key_def server_alive_key_def)

lemma bot_key_neq_available_key [simp]:
  "bot_key u \<noteq> servers_available_key" "servers_available_key \<noteq> bot_key u"
  by (simp_all add: bot_key_def servers_available_key_def)

lemma set_bot_in_instance_redis_refused:
  "refused (redis s) (bot_key u) \<Longrightarrow>
   set_bot_in_instance_redis u s = (Inl (ValueError ''Error save bot in instance redis''), s)"
  by (simp add: set_bot_in_instance_redis_def redis_set_def)

lemma set_bot_in_instance_redis_ok:
  assumes "\<not> refused (redis s) (bot_key u)"
    and "kv (redis s) (server_key (instance_ip s)) = Some v"
    and "\<not> refused (redis s) (server_key (instance_ip s))"
  shows "set_bot_in_instance_redis u s =
     (Inr (), s\<lparr>redis := (redis s)
        \<lparr>kv := (kv (redis s))(bot_key u \<mapsto> instance_ip s,
                 server_key (instance_ip s) \<mapsto> str_join (str_split v @ [bot_key u])),
         expire := (expire (redis s))(bot_key u \<mapsto> 70, server_key (instance_ip s) := None)\<rparr>\<rparr>)"
  using assms
  by (simp add: set_bot_in_instance_redis_def redis_set_def redis_get_def)

lemma set_bot_in_instance_redis_Inr_iff:
  "fst (set_bot_in_instance_redis u s) = Inr () \<longleftrightarrow>
     \<not> refused (redis s) (bot_key u) \<and> kv (redis s) (server_key (instance_ip s)) \<noteq> None
     \<and> \<not> refused (redis s) (server_key (instance_ip s))"
  by (auto simp add: set_bot_in_instance_redis_def redis_set_def redis_get_def split: option.splits)

lemma remove_bot_instance_redis_ok:
  assumes "\<not> refused (redis s) (bot_key u)" and "kv (redis s) (bot_key u) \<noteq> None"
    and "kv (redis s) (server_key (instance_ip s)) = Some v"
    and "bot_key u \<in> set (str_split v)"
    and "\<not> refused (redis s) (server_key (instance_ip s))"
  shows "remove_bot_instance_redis u s =
     (Inr (), s\<lparr>redis := (redis s)
        \<lparr>kv := (kv (redis s))(bot_key u := None,
                 server_key (instance_ip s) \<mapsto> str_join (remove1 (bot_key u) (str_split v))),
         expire := (expire (redis s))(bot_key u := None, server_key (instance_ip s) := None)\<rparr>\<rparr>)"
  using assms
  by (simp add: remove_bot_instance_redis_def redis_delete_def redis_get_def redis_set_def
      list_remove_def)

lemma set_bot_in_instance_redis_appends:
  assumes "fst (set_bot_in_instance_redis u s) = Inr ()" and "word (bot_key u)"
  shows "server_bots (snd (set_bot_in_instance_redis u s)) = server_bots s @ [bot_key u]"
proof -
  from assms(1) have ok: "\<not> refused (redis s) (bot_key u)"
    "\<not> refused (redis s) (server_key (instance_ip s))"
    and "kv (redis s) (server_key (instance_ip s)) \<noteq> None"
    by (simp_all add: set_bot_in_instance_redis_Inr_iff)
  then obtain v where v: "kv (redis s) (server_key (instance_ip s)) = Some v" by auto
  have "\<forall>w \<in> set (str_split v @ [bot_key u]). word w"
    using assms(2) by (auto dest: str_split_words)
  then have "str_split (str_join (str_split v @ [bot_key u])) = str_split v @ [bot_key u]"
    by (rule str_split_join)
  then show ?thesis
    by (simp add: set_bot_in_instance_redis_ok [OF ok(1) v ok(2)] server_bots_def v)
qed

text \<open>
  Claim C4. When the store refuses the write of the session-owner key, claiming a session
  raises and leaves the whole state, the instance's session list included, as it was. When
  both writes are accepted and the list is there, the claim returns normally: the owner key
  holds the instance with an expiry of 70 seconds and the session key is appended to the
  list. The claim returns normally only if every step succeeded; in every other case it
  raises.
\<close>

theorem set_bot_in_instance_redis_spec:
  "(refused (redis s) (bot_key u) \<longrightarrow>
      set_bot_in_instance_redis u s = (Inl (ValueError ''Error save bot in instance redis''), s))
   \<and> (\<not> refused (redis s) (bot_key u) \<and> kv (redis s) (server_key (instance_ip s)) = Some v
        \<and> \<not> refused (redis s) (server_key (instance_ip s)) \<longrightarrow>
      fst (set_bot_in_instance_redis u s) = Inr ()
      \<and> kv (redis (snd (set_bot_in_instance_redis u s))) (bot_key u) = Some (instance_ip s)
      \<and> expire (redis (snd (set_bot_in_instance_redis u s))) (bot_key u) = Some 70
      \<and> kv (redis (snd (set_bot_in_instance_redis u s))) (server_key (instance_ip s))
          = Some (str_join (str_split v @ [bot_key u])))
   \<and> (fst (set_bot_in_instance_redis u s) = Inr () \<longleftrightarrow>
        \<not> refused (redis s) (bot_key u) \<and> kv (redis s) (server_key (instance_ip s)) \<noteq> None
        \<and> \<not> refused (redis s) (server_key (instance_ip s)))
"
proof (intro conjI impI)
  show "fst (set_bot_in_instance_redis u s) = Inr () \<longleftrightarrow>
        \<not> refused (redis s) (bot_key u) \<and> kv (redis s) (server_key (instance_ip s)) \<noteq> None
        \<and> \<not> refused (redis s) (server_key (instance_ip s))"
    by (rule set_bot_in_instance_redis_Inr_iff)
qed (simp_all add: set_bot_in_instance_redis_refused set_bot_in_instance_redis_ok)

lemma same_but_redis_refl [simp]: "same_but_redis s s"
  by (simp add: same_but_redis_def)

lemma same_but_redis_fields:
  "same_but_redis s s' \<Longrightarrow>
     pool s' = pool s \<and> instance_ip s' = instance_ip s \<and> procs s' = procs s
     \<and> queues s' = queues s \<and> events s' = events s \<and> timers s' = timers s
     \<and> database s' = database s \<and> db_queries s' = db_queries s \<and> next_obj s' = next_obj s
     \<and> refused (redis s') = refused (redis s)"
  by (cases s, cases s') (simp add: same_but_redis_def)

lemma set_bot_in_instance_redis_frame:
  assumes "set_bot_in_instance_redis u s = (r, s')"
  shows "same_but_redis s s'"
    and "k \<noteq> bot_key u \<Longrightarrow> k \<noteq> server_key (instance_ip s) \<Longrightarrow>
         kv (redis s') k = kv (redis s) k \<and> expire (redis s') k = expire (redis s) k"
  using assms
  by (auto simp add: set_bot_in_instance_redis_def redis_set_def redis_get_def same_but_redis_def
      split: option.splits if_splits)

lemma remove_bot_instance_redis_frame:
  assumes "remove_bot_instance_redis u s = (r, s')"
  shows "same_but_redis s s'"
    and "k \<noteq> bot_key u \<Longrightarrow> k \<noteq> server_key (instance_ip s) \<Longrightarrow>
         kv (redis s') k = kv (redis s) k \<and> expire (redis s') k = expire (redis s) k"
  using assms
  by (auto simp add: remove_bot_instance_redis_def redis_set_def redis_get_def redis_delete_def
      same_but_redis_def list_remove_def
      split: option.splits if_splits sum.splits nat.splits)

lemma set_bot_in_instance_redis_owner:
  assumes "set_bot_in_instance_redis u s = (Inr x, s')"
  shows "kv (redis s') (bot_key u) = Some (instance_ip s) \<and> expire (redis s') (bot_key u) = Some 70"
  using assms
  by (auto simp add: set_bot_in_instance_redis_def redis_set_def redis_get_def
      split: option.splits if_splits)

lemma remove_bot_instance_redis_owner:
  assumes "remove_bot_instance_redis u s = (Inr x, s')"
  shows "kv (redis s') (bot_key u) = None"
  using assms
  by (auto simp add: remove_bot_instance_redis_def redis_set_def redis_get_def redis_delete_def
      list_remove_def split: option.splits if_splits sum.splits nat.splits)

subsection \<open>The list of available instances, when it has no duplicates\<close>

lemma set_usage_memory_accepted:
  assumes "\<not> refused (redis s) servers_available_key"
  shows "set_usage_memory usage_memory s =
     (Inr (), s\<lparr>redis := (redis s)
        \<lparr>kv := (kv (redis s))(servers_available_key \<mapsto>
                  str_join (updated_servers usage_memory (instance_ip s) (available s))),
         expire := (expire (redis s))(servers_available_key := None)\<rparr>\<rparr>)"
  using assms
  by (simp add: set_usage_memory_def redis_set_def redis_get_def available_def
      updated_servers_def Let_def)

lemma available_words: "w \<in> set (available s) \<Longrightarrow> word w"
  by (auto simp add: available_def dest: str_split_words split: option.splits)

lemma available_after:
  assumes "\<not> refused (redis s) servers_available_key" and "word (instance_ip s)"
  shows "available (snd (set_usage_memory usage_memory s))
           = updated_servers usage_memory (instance_ip s) (available s)"
proof -
  have "\<forall>w \<in> set (updated_servers usage_memory (instance_ip s) (available s)). word w"
  proof
    fix w assume "w \<in> set (updated_servers usage_memory (instance_ip s) (available s))"
    then have "w = instance_ip s \<or> w \<in> set (available s)"
      by (auto simp add: updated_servers_def dest: notin_set_remove1 split: if_splits)
    with assms(2) show "word w" by (auto dest: available_words)
  qed
  then show ?thesis
    by (simp add: set_usage_memory_accepted [OF assms(1)] available_def str_split_join)
qed

lemma set_usage_memory_on_set:
  assumes "\<not> refused (redis s) servers_available_key" and "word (instance_ip s)"
    and "distinct (available s)"
  shows "fst (set_usage_memory usage_memory s) = Inr ()
    \<and> (instance_ip s \<in> set (available (snd (set_usage_memory usage_memory s)))
         \<longleftrightarrow> usage_memory \<le> 80)
    \<and> distinct (available (snd (set_usage_memory usage_memory s)))
    \<and> available (snd (set_usage_memory usage_memory (snd (set_usage_memory usage_memory s))))
        = available (snd (set_usage_memory usage_memory s))"
proof -
  let ?s1 = "snd (set_usage_memory usage_memory s)"
  have s1: "\<not> refused (redis ?s1) servers_available_key" "instance_ip ?s1 = instance_ip s"
    using assms(1) by (simp_all add: set_usage_memory_accepted)
  have a1: "available ?s1 = updated_servers usage_memory (instance_ip s) (available s)"
    by (rule available_after [OF assms(1,2)])
  have a2: "available (snd (set_usage_memory usage_memory ?s1))
      = updated_servers usage_memory (instance_ip s) (available ?s1)"
    using available_after [of ?s1 usage_memory] s1 assms(2) by simp
  have mem: "instance_ip s \<in> set (available ?s1) \<longleftrightarrow> usage_memory \<le> 80"
    using assms(3) by (simp add: a1 updated_servers_def)
  have dist: "distinct (available ?s1)"
    using assms(3) by (simp add: a1 updated_servers_def)
  have idem: "updated_servers usage_memory (instance_ip s) (available ?s1) = available ?s1"
    using mem by (simp add: updated_servers_def)
  have "fst (set_usage_memory usage_memory s) = Inr ()"
    by (simp add: set_usage_memory_accepted [OF assms(1)])
  with mem dist a2 idem show ?thesis by simp
qed

section \<open>The eviction sweep\<close>

lemma update_fresh_key: "k \<notin> fst ` set al \<Longrightarrow> AList.update k v al = al @ [(k, v)]"
  by (induction al) auto

lemma terminate_fields:
  "pool (terminate pid s) = pool s" "instance_ip (terminate pid s) = instance_ip s"
  "redis (terminate pid s) = redis s" "timers (terminate pid s) = timers s"
  "queues (terminate pid s) = queues s" "events (terminate pid s) = events s"
  by (simp_all add: terminate_def split: option.splits)

lemma terminate_not_running: "\<not> running (terminate pid s) pid"
  by (simp add: terminate_def running_def split: option.splits)

lemma terminate_keeps_not_running: "\<not> running s q \<Longrightarrow> \<not> running (terminate pid s) q"
  by (auto simp add: terminate_def running_def split: option.splits)

lemma same_but_redis_running: "same_but_redis s s' \<Longrightarrow> running s' pid = running s pid"
  by (simp add: running_def same_but_redis_fields)

lemma gc_loop_frame:
  assumes "gc_loop now_at items np s = (r, s')"
  shows "pool s' = pool s \<and> instance_ip s' = instance_ip s \<and> timers s' = timers s
         \<and> refused (redis s') = refused (redis s)"
  using assms
proof (induction items arbitrary: np s)
  case Nil
  then show ?case by simp
next
  case (Cons it items)
  obtain u b where it: "it = (u, b)" by (cases it)
  show ?case
  proof (cases "now_at u - last_time_update b \<ge> five_minutes")
    case False
    obtain r1 s1 where step: "set_bot_in_instance_redis u s = (r1, s1)"
      by (cases "set_bot_in_instance_redis u s")
    note fr = same_but_redis_fields [OF set_bot_in_instance_redis_frame(1) [OF step]]
    show ?thesis
    proof (cases r1)
      case (Inl e)
      with Cons.prems it False step fr show ?thesis by auto
    next
      case (Inr x)
      with Cons.prems it False step
      have "gc_loop now_at items (AList.update u b np) s1 = (r, s')" by simp
      from Cons.IH [OF this] fr show ?thesis by simp
    qed
  next
    case True
    obtain r1 s1 where step: "remove_bot_instance_redis u s = (r1, s1)"
      by (cases "remove_bot_instance_redis u s")
    note fr = same_but_redis_fields [OF remove_bot_instance_redis_frame(1) [OF step]]
    show ?thesis
    proof (cases r1)
      case (Inl e)
      with Cons.prems it True step fr show ?thesis by auto
    next
      case (Inr x)
      with Cons.prems it True step
      have "gc_loop now_at items np (terminate (bot_instance b) s1) = (r, s')" by simp
      from Cons.IH [OF this] fr show ?thesis by (simp add: terminate_fields)
    qed
  qed
qed

lemma gc_loop_ConsE:
  assumes "gc_loop now_at ((u, b) # items) np s = (Inr np', s')"
  obtains (keep) s1 where "fresh now_at (u, b)"
      and "set_bot_in_instance_redis u s = (Inr (), s1)"
      and "gc_loop now_at items (AList.update u b np) s1 = (Inr np', s')"
    | (evict) s1 where "\<not> fresh now_at (u, b)"
      and "remove_bot_instance_redis u s = (Inr (), s1)"
      and "gc_loop now_at items np (terminate (bot_instance b) s1) = (Inr np', s')"
proof (cases "now_at u - last_time_update b \<ge> five_minutes")
  case False
  obtain r1 s1 where step: "set_bot_in_instance_redis u s = (r1, s1)"
    by (cases "set_bot_in_instance_redis u s")
  with assms False have "r1 = Inr ()"
    by (cases r1) auto
  with assms False step show ?thesis
    by (intro keep [of s1]) (simp_all add: fresh_def)
next
  case True
  obtain r1 s1 where step: "remove_bot_instance_redis u s = (r1, s1)"
    by (cases "remove_bot_instance_redis u s")
  with assms True have "r1 = Inr ()"
    by (cases r1) auto
  with assms True step show ?thesis
    by (intro evict [of s1]) (simp_all add: fresh_def)
qed

lemma gc_loop_new_pool:
  assumes "gc_loop now_at items np s = (Inr np', s')"
    and "distinct (map fst items)"
    and "fst ` set items \<inter> fst ` set np = {}"
  shows "np' = np @ filter (fresh now_at) items"
  using assms
proof (induction items arbitrary: np s)
  case Nil
  then show ?case by simp
next
  case (Cons it items)
  obtain u b where it: "it = (u, b)" by (cases it)
  from Cons.prems(1) [unfolded it] show ?case
  proof (cases rule: gc_loop_ConsE)
    case (keep s1)
    from Cons.prems it have new: "u \<notin> fst ` set np" by auto
    then have upd: "AList.update u b np = np @ [(u, b)]" by (rule update_fresh_key)
    from Cons.prems it have "fst ` set items \<inter> fst ` set (np @ [(u, b)]) = {}"
      by (auto simp: image_iff)
    with Cons.IH [OF keep(3) [unfolded upd]] Cons.prems(2) keep(1) it
    show ?thesis by simp
  next
    case (evict s1)
    from Cons.prems it have "fst ` set items \<inter> fst ` set np = {}" by auto
    with Cons.IH [OF evict(3)] Cons.prems(2) evict(1) it
    show ?thesis by simp
  qed
qed

lemma gc_loop_other_keys:
  assumes "gc_loop now_at items np s = (Inr np', s')"
    and "\<forall>it \<in> set items. k \<noteq> bot_key (fst it)"
    and "k \<noteq> server_key (instance_ip s)"
  shows "kv (redis s') k = kv (redis s) k \<and> expire (redis s') k = expire (redis s) k"
  using assms
proof (induction items arbitrary: np s)
  case Nil
  then show ?case by simp
next
  case (Cons it items)
  obtain u b where it: "it = (u, b)" by (cases it)
  from Cons.prems it have k: "k \<noteq> bot_key u" and ks: "\<forall>it \<in> set items. k \<noteq> bot_key (fst it)"
    by auto
  from Cons.prems(1) [unfolded it] show ?case
  proof (cases rule: gc_loop_ConsE)
    case (keep s1)
    note fr = set_bot_in_instance_redis_frame [OF keep(2)]
    from fr(1) have ip: "instance_ip s1 = instance_ip s" by (simp add: same_but_redis_fields)
    from Cons.IH [OF keep(3) ks] ip Cons.prems(3) fr(2) [OF k Cons.prems(3)]
    show ?thesis by simp
  next
    case (evict s1)
    note fr = remove_bot_instance_redis_frame [OF evict(2)]
    from fr(1) have ip: "instance_ip (terminate (bot_instance b) s1) = instance_ip s"
      by (simp add: same_but_redis_fields terminate_fields)
    from Cons.IH [OF evict(3) ks] ip Cons.prems(3) fr(2) [OF k Cons.prems(3)]
    show ?thesis by (simp add: terminate_fields)
  qed
qed

lemma gc_loop_keeps_not_running:
  assumes "gc_loop now_at items np s = (Inr np', s')" and "\<not> running s pid"
  shows "\<not> running s' pid"
  using assms
proof (induction items arbitrary: np s)
  case Nil
  then show ?case by simp
next
  case (Cons it items)
  obtain u b where it: "it = (u, b)" by (cases it)
  from Cons.prems(1) [unfolded it] show ?case
  proof (cases rule: gc_loop_ConsE)
    case (keep s1)
    from set_bot_in_instance_redis_frame(1) [OF keep(2)] Cons.prems(2)
    have "\<not> running s1 pid" by (simp add: same_but_redis_running)
    with Cons.IH [OF keep(3)] show ?thesis by simp
  next
    case (evict s1)
    from remove_bot_instance_redis_frame(1) [OF evict(2)] Cons.prems(2)
    have "\<not> running s1 pid" by (simp add: same_but_redis_running)
    then have "\<not> running (terminate (bot_instance b) s1) pid"
      by (rule terminate_keeps_not_running)
    with Cons.IH [OF evict(3)] show ?thesis by simp
  qed
qed

lemma gc_loop_entries:
  assumes "gc_loop now_at items np s = (Inr np', s')"
    and "distinct (map fst items)"
    and "(u, b) \<in> set items"
  shows "if fresh now_at (u, b)
         then kv (redis s') (bot_key u) = Some (instance_ip s)
              \<and> expire (redis s') (bot_key u) = Some 70
         else kv (redis s') (bot_key u) = None \<and> \<not> running s' (bot_instance b)"
  using assms
proof (induction items arbitrary: np s)
  case Nil
  then show ?case by simp
next
  case (Cons it items)
  obtain u0 b0 where it: "it = (u0, b0)" by (cases it)
  from Cons.prems(2) it have d: "distinct (map fst items)" and u0: "u0 \<notin> fst ` set items"
    by auto
  from Cons.prems(1) [unfolded it] show ?case
  proof (cases rule: gc_loop_ConsE)
    case (keep s1)
    note fr = set_bot_in_instance_redis_frame(1) [OF keep(2)]
    then have ip: "instance_ip s1 = instance_ip s" by (simp add: same_but_redis_fields)
    show ?thesis
    proof (cases "(u, b) = (u0, b0)")
      case True
      from u0 have "\<forall>it \<in> set items. bot_key u0 \<noteq> bot_key (fst it)" by auto
      from gc_loop_other_keys [OF keep(3) this] set_bot_in_instance_redis_owner [OF keep(2)]
        True keep(1)
      show ?thesis by simp
    next
      case False
      with Cons.prems(3) it have "(u, b) \<in> set items" by auto
      from Cons.IH [OF keep(3) d this] ip show ?thesis by simp
    qed
  next
    case (evict s1)
    note fr = remove_bot_instance_redis_frame(1) [OF evict(2)]
    then have ip: "instance_ip (terminate (bot_instance b0) s1) = instance_ip s"
      by (simp add: same_but_redis_fields terminate_fields)
    show ?thesis
    proof (cases "(u, b) = (u0, b0)")
      case True
      from u0 have "\<forall>it \<in> set items. bot_key u0 \<noteq> bot_key (fst it)" by auto
      from gc_loop_other_keys [OF evict(3) this] remove_bot_instance_redis_owner [OF evict(2)]
        gc_loop_keeps_not_running [OF evict(3) terminate_not_running]
        True evict(1)
      show ?thesis by (simp add: terminate_fields)
    next
      case False
      with Cons.prems(3) it have "(u, b) \<in> set items" by auto
      from Cons.IH [OF evict(3) d this] ip show ?thesis by simp
    qed
  qed
qed

lemma set_server_alive_frame:
  assumes "set_server_alive s = (r, s')"
  shows "same_but_redis s s'"
    and "k \<noteq> server_alive_key (instance_ip s) \<Longrightarrow>
         kv (redis s') k = kv (redis s) k \<and> expire (redis s') k = expire (redis s) k"
  using assms
  by (auto simp add: set_server_alive_def redis_set_def same_but_redis_def split: if_splits)

lemma set_usage_memory_frame:
  assumes "set_usage_memory usage_memory s = (r, s')"
  shows "same_but_redis s s'"
    and "k \<noteq> servers_available_key \<Longrightarrow>
         kv (redis s') k = kv (redis s) k \<and> expire (redis s') k = expire (redis s) k"
  using assms
  by (auto simp add: set_usage_memory_def redis_set_def same_but_redis_def Let_def
      split: if_splits)

lemma garbage_collector_InrE:
  assumes "garbage_collector now_at usage_memory s = (Inr x, s')"
  obtains s1 new_pool s2 s4 where "set_server_alive s = (Inr (), s1)"
    and "gc_loop now_at (pool s1) [] s1 = (Inr new_pool, s2)"
    and "set_usage_memory usage_memory (s2\<lparr>pool := new_pool\<rparr>) = (Inr (), s4)"
    and "s' = start_garbage_collector s4"
proof -
  obtain r1 s1 where a: "set_server_alive s = (r1, s1)" by (cases "set_server_alive s")
  obtain r2 s2 where b: "gc_loop now_at (pool s1) [] s1 = (r2, s2)"
    by (cases "gc_loop now_at (pool s1) [] s1")
  from assms a have r1: "r1 = Inr ()"
    by (cases r1) (auto simp add: garbage_collector_def)
  with assms a b obtain new_pool where r2: "r2 = Inr new_pool"
    by (cases r2) (auto simp add: garbage_collector_def)
  obtain r3 s4 where c: "set_usage_memory usage_memory (s2\<lparr>pool := new_pool\<rparr>) = (r3, s4)"
    by (cases "set_usage_memory usage_memory (s2\<lparr>pool := new_pool\<rparr>)")
  with assms a b r1 r2 have r3: "r3 = Inr ()"
    by (cases r3) (auto simp add: garbage_collector_def)
  with assms a b c r1 r2 have "s' = start_garbage_collector s4"
    by (simp add: garbage_collector_def)
  with a b c r1 r2 r3 that show thesis by blast
qed

lemma start_garbage_collector_fields:
  "pool (start_garbage_collector s) = pool s" "redis (start_garbage_collector s) = redis s"
  "procs (start_garbage_collector s) = procs s"
  "instance_ip (start_garbage_collector s) = instance_ip s"
  "timers (start_garbage_collector s) = Suc (timers s)"
  by (simp_all add: start_garbage_collector_def)

lemma running_pool_update [simp]: "running (s\<lparr>pool := p\<rparr>) pid = running s pid"
  by (simp add: running_def)

lemma running_start_garbage_collector [simp]:
  "running (start_garbage_collector s) pid = running s pid"
  by (simp add: running_def start_garbage_collector_def)

lemma garbage_collector_done:
  assumes "distinct (map fst (pool s))"
    and "garbage_collector now_at usage_memory s = (Inr (), s')"
  shows "pool s' = filter (fresh now_at) (pool s)
    \<and> (\<forall>(uuid, b) \<in> set (pool s).
          if fresh now_at (uuid, b)
          then map_of (pool s') uuid = Some b
               \<and> kv (redis s') (bot_key uuid) = Some (instance_ip s)
               \<and> expire (redis s') (bot_key uuid) = Some 70
          else map_of (pool s') uuid = None
               \<and> kv (redis s') (bot_key uuid) = None
               \<and> \<not> running s' (bot_instance b))"
proof -
  from assms(2) obtain s1 new_pool s2 s4 where
    alive: "set_server_alive s = (Inr (), s1)"
    and loop: "gc_loop now_at (pool s1) [] s1 = (Inr new_pool, s2)"
    and usage: "set_usage_memory usage_memory (s2\<lparr>pool := new_pool\<rparr>) = (Inr (), s4)"
    and s': "s' = start_garbage_collector s4"
    by (rule garbage_collector_InrE)
  note f1 = same_but_redis_fields [OF set_server_alive_frame(1) [OF alive]]
  note f4 = same_but_redis_fields [OF set_usage_memory_frame(1) [OF usage]]
  from f1 assms(1) have d: "distinct (map fst (pool s1))" by simp
  from gc_loop_new_pool [OF loop d] have np: "new_pool = filter (fresh now_at) (pool s)"
    using f1 by simp
  from f4 s' np have pool: "pool s' = filter (fresh now_at) (pool s)"
    by (simp add: start_garbage_collector_fields)
  have entry: "if fresh now_at (uuid, b)
          then map_of (pool s') uuid = Some b
               \<and> kv (redis s') (bot_key uuid) = Some (instance_ip s)
               \<and> expire (redis s') (bot_key uuid) = Some 70
          else map_of (pool s') uuid = None
               \<and> kv (redis s') (bot_key uuid) = None
               \<and> \<not> running s' (bot_instance b)"
    if mem: "(uuid, b) \<in> set (pool s)" for uuid b
  proof -
    from mem f1 have mem1: "(uuid, b) \<in> set (pool s1)" by simp
    note e = gc_loop_entries [OF loop d mem1]
    have store: "kv (redis s') (bot_key uuid) = kv (redis s2) (bot_key uuid)
        \<and> expire (redis s') (bot_key uuid) = expire (redis s2) (bot_key uuid)"
      using set_usage_memory_frame(2) [OF usage, of "bot_key uuid"] s'
      by (simp add: start_garbage_collector_fields)
    have run: "running s' (bot_instance b) = running s2 (bot_instance b)"
      using same_but_redis_running [OF set_usage_memory_frame(1) [OF usage]] s' by simp
    from assms(1) mem have look: "map_of (pool s) uuid = Some b" by simp
    show ?thesis
    proof (cases "fresh now_at (uuid, b)")
      case True
      from look True have "map_of (filter (fresh now_at) (pool s)) uuid = Some b"
        using map_of_filter_in [of "pool s" uuid b "\<lambda>k v. fresh now_at (k, v)"] by simp
      with True e store pool f1 show ?thesis by simp
    next
      case False
      have "uuid \<notin> fst ` set (filter (fresh now_at) (pool s))"
      proof
        assume "uuid \<in> fst ` set (filter (fresh now_at) (pool s))"
        then obtain b' where b': "(uuid, b') \<in> set (pool s)" "fresh now_at (uuid, b')" by auto
        from assms(1) b'(1) have "map_of (pool s) uuid = Some b'" by simp
        with look b'(2) False show False by simp
      qed
      then have "map_of (pool s') uuid = None"
        by (simp add: pool map_of_eq_None_iff)
      with False e store run show ?thesis by simp
    qed
  qed
  from pool entry show ?thesis by blast
qed

lemma gc_loop_returns:
  assumes "\<forall>k. \<not> refused (redis s) k"
    and "kv (redis s) (server_key (instance_ip s)) = Some v"
    and "distinct (map fst items)"
    and "\<forall>(u, b) \<in> set items. word (bot_key u)
           \<and> (\<not> fresh now_at (u, b) \<longrightarrow>
                kv (redis s) (bot_key u) \<noteq> None \<and> bot_key u \<in> set (str_split v))"
  shows "\<exists>np' s'. gc_loop now_at items np s = (Inr np', s')"
  using assms
proof (induction items arbitrary: s v np)
  case Nil
  show ?case by simp
next
  case (Cons it items)
  obtain u b where it: "it = (u, b)" by (cases it)
  from Cons.prems(3) it have d: "distinct (map fst items)" and u: "u \<notin> fst ` set items"
    by auto
  from Cons.prems(4) it have wu: "word (bot_key u)" by simp
  have words: "\<forall>w \<in> set (str_split v). word w"
    by (simp add: str_split_words)
  show ?case
  proof (cases "fresh now_at (u, b)")
    case True
    let ?v = "str_join (str_split v @ [bot_key u])"
    let ?s1 = "s\<lparr>redis := (redis s)
        \<lparr>kv := (kv (redis s))(bot_key u \<mapsto> instance_ip s, server_key (instance_ip s) \<mapsto> ?v),
         expire := (expire (redis s))(bot_key u \<mapsto> 70, server_key (instance_ip s) := None)\<rparr>\<rparr>"
    have step: "set_bot_in_instance_redis u s = (Inr (), ?s1)"
      using Cons.prems(1,2) by (intro set_bot_in_instance_redis_ok) simp_all
    have split: "str_split ?v = str_split v @ [bot_key u]"
      using words wu by (intro str_split_join) auto
    have "\<exists>np' s'. gc_loop now_at items (AList.update u b np) ?s1 = (Inr np', s')"
    proof (rule Cons.IH [of ?s1 ?v])
      show "\<forall>k. \<not> refused (redis ?s1) k" using Cons.prems(1) by simp
      show "kv (redis ?s1) (server_key (instance_ip ?s1)) = Some ?v" by simp
      show "distinct (map fst items)" by (rule d)
      show "\<forall>(u', b') \<in> set items. word (bot_key u')
           \<and> (\<not> fresh now_at (u', b') \<longrightarrow>
                kv (redis ?s1) (bot_key u') \<noteq> None \<and> bot_key u' \<in> set (str_split ?v))"
      proof (intro ballI, clarify)
        fix u' b' assume mem: "(u', b') \<in> set items"
        with u have ne: "u' \<noteq> u" by force
        from Cons.prems(4) mem have h: "word (bot_key u')
           \<and> (\<not> fresh now_at (u', b') \<longrightarrow>
                kv (redis s) (bot_key u') \<noteq> None \<and> bot_key u' \<in> set (str_split v))"
          by auto
        with ne show "word (bot_key u')
           \<and> (\<not> fresh now_at (u', b') \<longrightarrow>
                kv (redis ?s1) (bot_key u') \<noteq> None \<and> bot_key u' \<in> set (str_split ?v))"
          by (simp add: split)
      qed
    qed
    with True step it show ?thesis by (simp add: fresh_def)
  next
    case False
    with Cons.prems(4) it have present: "kv (redis s) (bot_key u) \<noteq> None"
      and listed: "bot_key u \<in> set (str_split v)"
      by auto
    let ?v = "str_join (remove1 (bot_key u) (str_split v))"
    let ?s1 = "s\<lparr>redis := (redis s)
        \<lparr>kv := (kv (redis s))(bot_key u := None, server_key (instance_ip s) \<mapsto> ?v),
         expire := (expire (redis s))(bot_key u := None, server_key (instance_ip s) := None)\<rparr>\<rparr>"
    let ?s2 = "terminate (bot_instance b) ?s1"
    have step: "remove_bot_instance_redis u s = (Inr (), ?s1)"
      using Cons.prems(1,2) present listed by (intro remove_bot_instance_redis_ok) simp_all
    have split: "str_split ?v = remove1 (bot_key u) (str_split v)"
      using words by (intro str_split_join) (auto dest: notin_set_remove1)
    have "\<exists>np' s'. gc_loop now_at items np ?s2 = (Inr np', s')"
    proof (rule Cons.IH [of ?s2 ?v])
      show "\<forall>k. \<not> refused (redis ?s2) k" using Cons.prems(1) by (simp add: terminate_fields)
      show "kv (redis ?s2) (server_key (instance_ip ?s2)) = Some ?v"
        by (simp add: terminate_fields)
      show "distinct (map fst items)" by (rule d)
      show "\<forall>(u', b') \<in> set items. word (bot_key u')
           \<and> (\<not> fresh now_at (u', b') \<longrightarrow>
                kv (redis ?s2) (bot_key u') \<noteq> None \<and> bot_key u' \<in> set (str_split ?v))"
      proof (intro ballI, clarify)
        fix u' b' assume mem: "(u', b') \<in> set items"
        with u have ne: "u' \<noteq> u" by force
        from Cons.prems(4) mem have h: "word (bot_key u')
           \<and> (\<not> fresh now_at (u', b') \<longrightarrow>
                kv (redis s) (bot_key u') \<noteq> None \<and> bot_key u' \<in> set (str_split v))"
          by auto
        with ne show "word (bot_key u')
           \<and> (\<not> fresh now_at (u', b') \<longrightarrow>
                kv (redis ?s2) (bot_key u') \<noteq> None \<and> bot_key u' \<in> set (str_split ?v))"
          by (simp add: split terminate_fields)
      qed
    qed
    with False step it show ?thesis by (simp add: fresh_def)
  qed
qed

lemma server_alive_key_neq_server_key [simp]:
  "server_alive_key ip \<noteq> server_key ip" "server_key ip \<noteq> server_alive_key ip"
proof -
  have "length (server_alive_key ip) \<noteq> length (server_key ip)"
    by (simp add: server_alive_key_def server_key_def)
  then show "server_alive_key ip \<noteq> server_key ip" "server_key ip \<noteq> server_alive_key ip"
    by auto
qed

lemma garbage_collector_returns:
  assumes "distinct (map fst (pool s))" and "sweepable now_at s"
  shows "fst (garbage_collector now_at usage_memory s) = Inr ()"
proof -
  from assms(2) have ok: "\<forall>k. \<not> refused (redis s) k"
    and "kv (redis s) (server_key (instance_ip s)) \<noteq> None"
    and entries: "\<forall>(uuid, b) \<in> set (pool s). word (bot_key uuid)
           \<and> (\<not> fresh now_at (uuid, b) \<longrightarrow>
                kv (redis s) (bot_key uuid) \<noteq> None \<and> bot_key uuid \<in> set (server_bots s))"
    by (simp_all add: sweepable_def)
  then obtain v where v: "kv (redis s) (server_key (instance_ip s)) = Some v" by auto
  let ?s1 = "s\<lparr>redis := (redis s)
      \<lparr>kv := (kv (redis s))(server_alive_key (instance_ip s) \<mapsto> ''True''),
       expire := (expire (redis s))(server_alive_key (instance_ip s) \<mapsto> 70)\<rparr>\<rparr>"
  have alive: "set_server_alive s = (Inr (), ?s1)"
    using ok by (simp add: set_server_alive_def redis_set_def)
  have "\<exists>np' s'. gc_loop now_at (pool ?s1) [] ?s1 = (Inr np', s')"
  proof (rule gc_loop_returns [of ?s1 v])
    show "\<forall>k. \<not> refused (redis ?s1) k" using ok by simp
    show "kv (redis ?s1) (server_key (instance_ip ?s1)) = Some v" using v by simp
    show "distinct (map fst (pool ?s1))" using assms(1) by simp
    show "\<forall>(u, b) \<in> set (pool ?s1). word (bot_key u)
           \<and> (\<not> fresh now_at (u, b) \<longrightarrow>
                kv (redis ?s1) (bot_key u) \<noteq> None \<and> bot_key u \<in> set (str_split v))"
      using entries v by (auto simp add: server_bots_def)
  qed
  then obtain new_pool s2 where loop: "gc_loop now_at (pool ?s1) [] ?s1 = (Inr new_pool, s2)"
    by blast
  from gc_loop_frame [OF loop] ok have ok2: "\<not> refused (redis s2) servers_available_key"
    by simp
  then have "fst (set_usage_memory usage_memory (s2\<lparr>pool := new_pool\<rparr>)) = Inr ()"
    by (simp add: set_usage_memory_def redis_set_def Let_def)
  with alive loop show ?thesis
    by (simp add: garbage_collector_def case_prod_beta split: sum.splits)
qed

text \<open>
  Claim C3, amended. For every pool (a dictionary: its keys are distinct), a sweep that
  meets no failing step runs to its end, and a sweep that runs to its end replaces the pool
  by the entries that are fresh, in their order. Each fresh entry stays under its key and its
  owner key holds this instance with a new expiry of 70 seconds. Each other entry is gone
  from the pool, its owner key is gone from the store and its worker does not run any
  more.
\<close>

theorem garbage_collector_spec:
  assumes "distinct (map fst (pool s))"
  shows "(sweepable now_at s \<longrightarrow> fst (garbage_collector now_at usage_memory s) = Inr ())
    \<and> (garbage_collector now_at usage_memory s = (Inr (), s') \<longrightarrow>
         pool s' = filter (fresh now_at) (pool s)
         \<and> (\<forall>(uuid, b) \<in> set (pool s).
               if fresh now_at (uuid, b)
               then map_of (pool s') uuid = Some b
                    \<and> kv (redis s') (bot_key uuid) = Some (instance_ip s)
                    \<and> expire (redis s') (bot_key uuid) = Some 70
               else map_of (pool s') uuid = None
                    \<and> kv (redis s') (bot_key uuid) = None
                    \<and> \<not> running s' (bot_instance b)))"
  using garbage_collector_returns [OF assms] garbage_collector_done [OF assms]
  by blast

lemma gc_loop_append:
  "gc_loop now_at (pre @ post) np s =
     (case gc_loop now_at pre np s of
        (Inl e, s1) \<Rightarrow> (Inl e, s1)
      | (Inr np1, s1) \<Rightarrow> gc_loop now_at post np1 s1)"
proof (induction pre arbitrary: np s)
  case Nil
  show ?case by simp
next
  case (Cons it pre)
  obtain u b where it: "it = (u, b)" by (cases it)
  show ?case
    by (simp add: it Cons.IH split: prod.splits sum.splits)
qed

lemma garbage_collector_error_no_timer:
  assumes "garbage_collector now_at usage_memory s = (Inl e, s')"
  shows "timers s' = timers s"
proof -
  obtain r1 s1 where a: "set_server_alive s = (r1, s1)" by (cases "set_server_alive s")
  obtain r2 s2 where b: "gc_loop now_at (pool s1) [] s1 = (r2, s2)"
    by (cases "gc_loop now_at (pool s1) [] s1")
  note f1 = same_but_redis_fields [OF set_server_alive_frame(1) [OF a]]
  note f2 = gc_loop_frame [OF b]
  show ?thesis
  proof (cases r1)
    case (Inl e1)
    with assms a f1 show ?thesis by (simp add: garbage_collector_def)
  next
    case r1: (Inr x1)
    show ?thesis
    proof (cases r2)
      case (Inl e2)
      with assms a b r1 f1 f2 show ?thesis by (simp add: garbage_collector_def)
    next
      case r2: (Inr new_pool)
      obtain r3 s4 where c: "set_usage_memory usage_memory (s2\<lparr>pool := new_pool\<rparr>) = (r3, s4)"
        by (cases "set_usage_memory usage_memory (s2\<lparr>pool := new_pool\<rparr>)")
      note f4 = same_but_redis_fields [OF set_usage_memory_frame(1) [OF c]]
      from assms a b c r1 r2 have "r3 = Inl e \<and> s' = s4"
        by (cases r3) (simp_all add: garbage_collector_def)
      with f1 f2 f4 show ?thesis by simp
    qed
  qed
qed

text \<open>
  Claim C5, amended. When the release of a stale session raises, the sweep ends there with
  that error and the state the failed release left: the sessions after it are not
  examined, the pool is the one from before the sweep (the workers terminated earlier in
  the sweep remain terminated), and no timer is started for the next period.
\<close>

theorem garbage_collector_aborts:
  assumes "pool s = pre @ (uuid, b) # post"
    and "set_server_alive s = (Inr (), s1)"
    and "gc_loop now_at pre [] s1 = (Inr kept, s2)"
    and "\<not> fresh now_at (uuid, b)"
    and "remove_bot_instance_redis uuid s2 = (Inl e, s3)"
  shows "garbage_collector now_at usage_memory s = (Inl e, s3)
    \<and> pool s3 = pool s \<and> timers s3 = timers s \<and> procs s3 = procs s2"
proof -
  note f1 = same_but_redis_fields [OF set_server_alive_frame(1) [OF assms(2)]]
  note f2 = gc_loop_frame [OF assms(3)]
  note f3 = same_but_redis_fields [OF remove_bot_instance_redis_frame(1) [OF assms(5)]]
  from assms(4) have stale: "now_at uuid - last_time_update b \<ge> five_minutes"
    by (simp add: fresh_def)
  have "gc_loop now_at (pool s1) [] s1 = (Inl e, s3)"
    using assms(1,3,5) f1 stale by (simp add: gc_loop_append)
  with assms(2) have "garbage_collector now_at usage_memory s = (Inl e, s3)"
    by (simp add: garbage_collector_def)
  with f1 f2 f3 show ?thesis by simp
qed

section \<open>Resolution\<close>

lemma start_bot_process_fields:
  "pool (snd (start_bot_process now b s)) = pool s"
  "redis (snd (start_bot_process now b s)) = redis s"
  "instance_ip (snd (start_bot_process now b s)) = instance_ip s"
  "database (snd (start_bot_process now b s)) = database s"
  "db_queries (snd (start_bot_process now b s)) = db_queries s"
  "timers (snd (start_bot_process now b s)) = timers s"
  by (simp_all add: start_bot_process_def Let_def)

lemma start_bot_process_entry:
  "fst (start_bot_process now b s) =
     \<lparr>bot_instance = next_obj s + 4, answers_queue = next_obj s,
      questions_queue = next_obj s + 1, new_question_event = next_obj s + 2,
      new_answer_event = next_obj s + 3, last_time_update = now\<rparr>"
  by (simp add: start_bot_process_def Let_def)

lemma start_bot_process_proc:
  "procs (snd (start_bot_process now b s)) (next_obj s + 4) =
     Some \<lparr>proc_questions = next_obj s + 1, proc_answers = next_obj s,
           proc_new_question = next_obj s + 2, proc_new_answer = next_obj s + 3,
           proc_bot = b, proc_state = Running\<rparr>"
  by (simp add: start_bot_process_def Let_def)

lemma get_bot_data_local:
  "map_of (pool s) u = Some bd \<Longrightarrow> get_bot_data pk now u s = (Inr bd, s)"
  by (simp add: get_bot_data_def)

lemma claim_accepted_Inr:
  "claim_accepted s u \<Longrightarrow> \<exists>s'. set_bot_in_instance_redis u s = (Inr (), s')"
  using set_bot_in_instance_redis_Inr_iff [of u s]
  by (cases "set_bot_in_instance_redis u s") (simp add: claim_accepted_def)

lemma get_bot_data_redis:
  assumes "map_of (pool s) u = None" and "kv (redis s) u = Some snap" and "loads pk snap = Some rb"
  shows "get_bot_data pk now u s =
     (case set_bot_in_instance_redis u
             ((snd (start_bot_process now rb s))
                \<lparr>pool := pool s @ [(u, fst (start_bot_process now rb s))]\<rparr>) of
        (Inl e, s3) \<Rightarrow> (Inl e, s3)
      | (Inr x, s3) \<Rightarrow> (Inr (fst (start_bot_process now rb s)), s3))"
proof -
  from assms(1) have "u \<notin> fst ` set (pool s)" by (simp add: map_of_eq_None_iff)
  then have "AList.update u bd (pool s) = pool s @ [(u, bd)]" for bd
    by (rule update_fresh_key)
  with assms show ?thesis
    by (simp add: get_bot_data_def get_bot_redis_def redis_get_def start_bot_process_fields
        case_prod_beta Let_def cong: sum.case_cong)
qed

lemma get_bot_data_origin:
  assumes "map_of (pool s) u = None" and "kv (redis s) u = None" and "database s u = Some blob"
    and "loads pk blob = Some rb"
  shows "get_bot_data pk now u s =
     (case set_bot_in_instance_redis u
             ((snd (start_bot_process now rb
                     (snd (set_bot_redis u (dumps pk rb)
                            (s\<lparr>db_queries := Suc (db_queries s)\<rparr>)))))
                \<lparr>pool := pool s @ [(u, fst (start_bot_process now rb s))]\<rparr>) of
        (Inl e, s3) \<Rightarrow> (Inl e, s3)
      | (Inr x, s3) \<Rightarrow> (Inr (fst (start_bot_process now rb s)), s3))"
proof -
  from assms(1) have "u \<notin> fst ` set (pool s)" by (simp add: map_of_eq_None_iff)
  then have upd: "AList.update u bd (pool s) = pool s @ [(u, bd)]" for bd
    by (rule update_fresh_key)
  have pool_set: "pool (snd (set_bot_redis u x s0)) = pool s0" for x s0
    by (simp add: set_bot_redis_def split: prod.splits)
  have next_set: "next_obj (snd (set_bot_redis u x s0)) = next_obj s0" for x s0
    by (simp add: set_bot_redis_def split: prod.splits)
  have entry: "fst (start_bot_process now b (snd (set_bot_redis u x (s\<lparr>db_queries := n\<rparr>))))
      = fst (start_bot_process now b s)" for b x n
    by (simp add: start_bot_process_entry next_set)
  from assms show ?thesis
    by (simp add: get_bot_data_def get_bot_redis_def redis_get_def bot_get_def Let_def
        start_bot_process_fields pool_set upd entry case_prod_beta cong: sum.case_cong)
qed

lemma get_bot_data_unpickled_snapshot:
  assumes "map_of (pool s) u = None" and "kv (redis s) u = Some snap" and "loads pk snap = None"
  shows "get_bot_data pk now u s = (Inl UnpicklingError, s)"
  using assms
  by (simp add: get_bot_data_def get_bot_redis_def redis_get_def)

lemma get_bot_data_unpickled_blob:
  assumes "map_of (pool s) u = None" and "kv (redis s) u = None" and "database s u = Some blob"
    and "loads pk blob = None"
  shows "get_bot_data pk now u s = (Inl UnpicklingError, s\<lparr>db_queries := Suc (db_queries s)\<rparr>)"
  using assms
  by (simp add: get_bot_data_def get_bot_redis_def redis_get_def bot_get_def Let_def)

lemma get_bot_data_missing:
  assumes "map_of (pool s) u = None" and "kv (redis s) u = None" and "database s u = None"
  shows "get_bot_data pk now u s = (Inl SessionNotFound, s\<lparr>db_queries := Suc (db_queries s)\<rparr>)"
  using assms
  by (simp add: get_bot_data_def get_bot_redis_def redis_get_def bot_get_def Let_def)

lemma bot_key_neq_self [simp]: "bot_key u \<noteq> u" "u \<noteq> bot_key u"
proof -
  have "length (bot_key u) \<noteq> length u" by (simp add: bot_key_def)
  then show "bot_key u \<noteq> u" "u \<noteq> bot_key u" by auto
qed

lemma publish_after_start:
  assumes acc: "claim_accepted s u"
    and t: "redis t = redis s" "instance_ip t = instance_ip s"
  shows "fst (set_bot_in_instance_redis u (t\<lparr>pool := p\<rparr>)) = Inr ()"
    and "pool (snd (set_bot_in_instance_redis u (t\<lparr>pool := p\<rparr>))) = p"
    and "procs (snd (set_bot_in_instance_redis u (t\<lparr>pool := p\<rparr>))) = procs t"
    and "db_queries (snd (set_bot_in_instance_redis u (t\<lparr>pool := p\<rparr>))) = db_queries t"
    and "kv (redis (snd (set_bot_in_instance_redis u (t\<lparr>pool := p\<rparr>)))) (bot_key u)
           = Some (instance_ip s)"
    and "k \<noteq> bot_key u \<Longrightarrow> k \<noteq> server_key (instance_ip s) \<Longrightarrow>
         kv (redis (snd (set_bot_in_instance_redis u (t\<lparr>pool := p\<rparr>)))) k = kv (redis s) k"
proof -
  from acc obtain v where v: "kv (redis s) (server_key (instance_ip s)) = Some v"
    by (auto simp add: claim_accepted_def)
  from acc have r: "\<not> refused (redis s) (bot_key u)" "\<not> refused (redis s) (server_key (instance_ip s))"
    by (simp_all add: claim_accepted_def)
  have eq: "set_bot_in_instance_redis u (t\<lparr>pool := p\<rparr>) =
     (Inr (), t\<lparr>pool := p, redis := (redis s)
        \<lparr>kv := (kv (redis s))(bot_key u \<mapsto> instance_ip s,
                 server_key (instance_ip s) \<mapsto> str_join (str_split v @ [bot_key u])),
         expire := (expire (redis s))(bot_key u \<mapsto> 70, server_key (instance_ip s) := None)\<rparr>\<rparr>)"
    using set_bot_in_instance_redis_ok [of "t\<lparr>pool := p\<rparr>" u v] v r t by simp
  show "fst (set_bot_in_instance_redis u (t\<lparr>pool := p\<rparr>)) = Inr ()"
    and "pool (snd (set_bot_in_instance_redis u (t\<lparr>pool := p\<rparr>))) = p"
    and "procs (snd (set_bot_in_instance_redis u (t\<lparr>pool := p\<rparr>))) = procs t"
    and "db_queries (snd (set_bot_in_instance_redis u (t\<lparr>pool := p\<rparr>))) = db_queries t"
    and "kv (redis (snd (set_bot_in_instance_redis u (t\<lparr>pool := p\<rparr>)))) (bot_key u)
           = Some (instance_ip s)"
    and "k \<noteq> bot_key u \<Longrightarrow> k \<noteq> server_key (instance_ip s) \<Longrightarrow>
         kv (redis (snd (set_bot_in_instance_redis u (t\<lparr>pool := p\<rparr>)))) k = kv (redis s) k"
    by (simp_all add: eq)
qed

lemma get_bot_data_redis_tier:
  assumes "map_of (pool s) u = None" and "kv (redis s) u = Some snap" and "claim_accepted s u"
    and "loads pk snap = Some rb"
  shows "fst (get_bot_data pk now u s) = Inr (fst (start_bot_process now rb s))"
    and "pool (snd (get_bot_data pk now u s))
           = pool s @ [(u, fst (start_bot_process now rb s))]"
    and "procs (snd (get_bot_data pk now u s)) (next_obj s + 4) =
           Some \<lparr>proc_questions = next_obj s + 1, proc_answers = next_obj s,
                 proc_new_question = next_obj s + 2, proc_new_answer = next_obj s + 3,
                 proc_bot = rb, proc_state = Running\<rparr>"
    and "kv (redis (snd (get_bot_data pk now u s))) (bot_key u) = Some (instance_ip s)"
    and "db_queries (snd (get_bot_data pk now u s)) = db_queries s"
proof -
  let ?s0 = "snd (start_bot_process now rb s)"
  let ?bd = "fst (start_bot_process now rb s)"
  note p = publish_after_start [where t = ?s0 and p = "pool s @ [(u, ?bd)]",
      OF assms(3) start_bot_process_fields(2,3)]
  note eq = get_bot_data_redis [OF assms(1,2,4)]
  show "fst (get_bot_data pk now u s) = Inr ?bd"
    using p(1) by (simp add: eq case_prod_beta split: sum.splits)
  show "pool (snd (get_bot_data pk now u s)) = pool s @ [(u, ?bd)]"
    using p(2) by (simp add: eq case_prod_beta split: sum.splits)
  show "procs (snd (get_bot_data pk now u s)) (next_obj s + 4) =
           Some \<lparr>proc_questions = next_obj s + 1, proc_answers = next_obj s,
                 proc_new_question = next_obj s + 2, proc_new_answer = next_obj s + 3,
                 proc_bot = rb, proc_state = Running\<rparr>"
    using p(3) by (simp add: eq case_prod_beta start_bot_process_proc split: sum.splits)
  show "kv (redis (snd (get_bot_data pk now u s))) (bot_key u) = Some (instance_ip s)"
    using p(5) by (simp add: eq case_prod_beta split: sum.splits)
  show "db_queries (snd (get_bot_data pk now u s)) = db_queries s"
    using p(4) by (simp add: eq case_prod_beta start_bot_process_fields split: sum.splits)
qed

lemma set_bot_redis_fields:
  "pool (snd (set_bot_redis u x s)) = pool s"
  "instance_ip (snd (set_bot_redis u x s)) = instance_ip s"
  "next_obj (snd (set_bot_redis u x s)) = next_obj s"
  "procs (snd (set_bot_redis u x s)) = procs s"
  "db_queries (snd (set_bot_redis u x s)) = db_queries s"
  "refused (redis (snd (set_bot_redis u x s))) = refused (redis s)"
  "kv (redis (snd (set_bot_redis u x s))) = (if refused (redis s) u then kv (redis s) else (kv (redis s))(u \<mapsto> x))"
  by (simp_all add: set_bot_redis_def redis_set_def)

lemma get_bot_data_origin_tier:
  assumes "map_of (pool s) u = None" and "kv (redis s) u = None" and "database s u = Some blob"
    and "claim_accepted s u" and "loads pk blob = Some rb"
  shows "fst (get_bot_data pk now u s) = Inr (fst (start_bot_process now rb s))"
    and "pool (snd (get_bot_data pk now u s))
           = pool s @ [(u, fst (start_bot_process now rb s))]"
    and "procs (snd (get_bot_data pk now u s)) (next_obj s + 4) =
           Some \<lparr>proc_questions = next_obj s + 1, proc_answers = next_obj s,
                 proc_new_question = next_obj s + 2, proc_new_answer = next_obj s + 3,
                 proc_bot = rb, proc_state = Running\<rparr>"
    and "kv (redis (snd (get_bot_data pk now u s))) (bot_key u) = Some (instance_ip s)"
    and "db_queries (snd (get_bot_data pk now u s)) = Suc (db_queries s)"
    and "\<not> refused (redis s) u \<Longrightarrow>
         kv (redis (snd (get_bot_data pk now u s))) u = Some (dumps pk rb)"
proof -
  let ?w = "snd (set_bot_redis u (dumps pk rb)
                  (s\<lparr>db_queries := Suc (db_queries s)\<rparr>))"
  let ?t = "snd (start_bot_process now rb ?w)"
  let ?bd = "fst (start_bot_process now rb s)"
  from assms(2,4) have neq: "u \<noteq> server_key (instance_ip s)"
    by (auto simp add: claim_accepted_def)
  from assms(4) have acc: "claim_accepted ?w u"
    by (simp add: claim_accepted_def set_bot_redis_fields)
  have t: "redis ?t = redis ?w" "instance_ip ?t = instance_ip ?w"
    by (simp_all add: start_bot_process_fields)
  note p = publish_after_start [where t = ?t and p = "pool s @ [(u, ?bd)]", OF acc t]
  note eq = get_bot_data_origin [OF assms(1,2,3,5)]
  show "fst (get_bot_data pk now u s) = Inr ?bd"
    using p(1) by (simp add: eq case_prod_beta split: sum.splits)
  show "pool (snd (get_bot_data pk now u s)) = pool s @ [(u, ?bd)]"
    using p(2) by (simp add: eq case_prod_beta split: sum.splits)
  show "procs (snd (get_bot_data pk now u s)) (next_obj s + 4) =
           Some \<lparr>proc_questions = next_obj s + 1, proc_answers = next_obj s,
                 proc_new_question = next_obj s + 2, proc_new_answer = next_obj s + 3,
                 proc_bot = rb, proc_state = Running\<rparr>"
    using p(3) start_bot_process_proc [of now "rb" ?w]
    by (simp add: eq case_prod_beta set_bot_redis_fields split: sum.splits)
  show "kv (redis (snd (get_bot_data pk now u s))) (bot_key u) = Some (instance_ip s)"
    using p(5) by (simp add: eq case_prod_beta set_bot_redis_fields split: sum.splits)
  show "db_queries (snd (get_bot_data pk now u s)) = Suc (db_queries s)"
    using p(4)
    by (simp add: eq case_prod_beta start_bot_process_fields set_bot_redis_fields
        split: sum.splits)
  show "kv (redis (snd (get_bot_data pk now u s))) u = Some (dumps pk rb)"
    if "\<not> refused (redis s) u"
    using p(6) [of u] neq that
    by (simp add: eq case_prod_beta set_bot_redis_fields split: sum.splits)
qed

lemma get_bot_data_origin_unpublished:
  assumes "map_of (pool s) u = None" and "kv (redis s) u = None" and "database s u = Some blob"
    and "refused (redis s) (bot_key u)" and "loads pk blob = Some rb"
  shows "fst (get_bot_data pk now u s) = Inl (ValueError ''Error save bot in instance redis'')"
    and "pool (snd (get_bot_data pk now u s))
           = pool s @ [(u, fst (start_bot_process now rb s))]"
    and "\<not> refused (redis s) u \<Longrightarrow>
         kv (redis (snd (get_bot_data pk now u s))) u = Some (dumps pk rb)"
proof -
  let ?w = "snd (set_bot_redis u (dumps pk rb)
                  (s\<lparr>db_queries := Suc (db_queries s)\<rparr>))"
  let ?t = "snd (start_bot_process now rb ?w)"
  let ?bd = "fst (start_bot_process now rb s)"
  have "refused (redis (?t\<lparr>pool := pool s @ [(u, ?bd)]\<rparr>)) (bot_key u)"
    using assms(4) by (simp add: start_bot_process_fields set_bot_redis_fields)
  note f = set_bot_in_instance_redis_refused [OF this]
  note eq = get_bot_data_origin [OF assms(1,2,3,5)]
  show "fst (get_bot_data pk now u s) = Inl (ValueError ''Error save bot in instance redis'')"
    by (simp add: eq f)
  show "pool (snd (get_bot_data pk now u s)) = pool s @ [(u, ?bd)]"
    by (simp add: eq f)
  show "kv (redis (snd (get_bot_data pk now u s))) u = Some (dumps pk rb)"
    if "\<not> refused (redis s) u"
    using that by (simp add: eq f start_bot_process_fields set_bot_redis_fields)
qed

lemma get_bot_data_again:
  assumes "get_bot_data pk now u s = (Inr bd, s')"
  shows "get_bot_data pk now2 u s' = (Inr bd, s')"
proof -
  have "map_of (pool s') u = Some bd"
  proof (cases "map_of (pool s) u")
    case (Some b)
    with assms show ?thesis by (simp add: get_bot_data_def)
  next
    case None
    have upd: "map_of (AList.update u b al) u = Some b" for b al
      by (simp add: update_conv')
    have keep: "set_bot_in_instance_redis u t = (r, t') \<Longrightarrow> pool t' = pool t" for t r t'
      using same_but_redis_fields [OF set_bot_in_instance_redis_frame(1)] by blast
    show ?thesis
    proof (cases "get_bot_redis u s")
      case (Some snap)
      from assms None Some obtain rb where rb: "loads pk snap = Some rb"
        by (cases "loads pk snap") (simp_all add: get_bot_data_def)
      let ?t = "(snd (start_bot_process now rb s))
           \<lparr>pool := AList.update u (fst (start_bot_process now rb s))
                      (pool (snd (start_bot_process now rb s)))\<rparr>"
      obtain r t' where st: "set_bot_in_instance_redis u ?t = (r, t')"
        by (cases "set_bot_in_instance_redis u ?t")
      from assms None Some rb st have "s' = t' \<and> bd = fst (start_bot_process now rb s)"
        by (cases r) (auto simp add: get_bot_data_def Let_def case_prod_beta)
      with keep [OF st] show ?thesis by (simp add: upd)
    next
      case miss: None
      show ?thesis
      proof (cases "database s u")
        case None
        with assms \<open>map_of (pool s) u = None\<close> miss show ?thesis
          by (simp add: get_bot_data_def bot_get_def Let_def)
      next
        case (Some blob)
        from assms \<open>map_of (pool s) u = None\<close> miss Some
        obtain rb where rb: "loads pk blob = Some rb"
          by (cases "loads pk blob") (simp_all add: get_bot_data_def bot_get_def Let_def)
        let ?w = "snd (set_bot_redis u (dumps pk rb)
                  (s\<lparr>db_queries := Suc (db_queries s)\<rparr>))"
        let ?t = "(snd (start_bot_process now rb ?w))
           \<lparr>pool := AList.update u (fst (start_bot_process now rb ?w))
                      (pool (snd (start_bot_process now rb ?w)))\<rparr>"
        obtain r t' where st: "set_bot_in_instance_redis u ?t = (r, t')"
          by (cases "set_bot_in_instance_redis u ?t")
        from assms \<open>map_of (pool s) u = None\<close> miss Some rb st
        have "s' = t' \<and> bd = fst (start_bot_process now rb ?w)"
          by (cases r) (auto simp add: get_bot_data_def bot_get_def Let_def case_prod_beta)
        with keep [OF st] show ?thesis by (simp add: upd)
      qed
    qed
  qed
  then show ?thesis by (rule get_bot_data_local)
qed

section \<open>Asking\<close>

lemma event_wait_returns:
  assumes "\<forall>k<n. \<not> events ((env ^^ k) s) e" and "events ((env ^^ n) s) e"
  shows "event_wait env e s = Some ((env ^^ n) s)"
  using assms
proof (induction n arbitrary: s)
  case 0
  then have "events s e" by simp
  then show ?case by (subst event_wait.simps) simp
next
  case (Suc n)
  from Suc.prems(1) have now: "\<not> events s e" by (auto dest: spec [of _ 0])
  have "\<forall>k<n. \<not> events ((env ^^ k) (env s)) e"
  proof (intro allI impI)
    fix k assume "k < n"
    then have "Suc k < Suc n" by simp
    with Suc.prems(1) have "\<not> events ((env ^^ Suc k) s) e" by blast
    then show "\<not> events ((env ^^ k) (env s)) e" by (simp add: funpow_swap1)
  qed
  moreover from Suc.prems(2) have "events ((env ^^ n) (env s)) e" by (simp add: funpow_swap1)
  ultimately have ih: "event_wait env e (env s) = Some ((env ^^ n) (env s))" by (rule Suc.IH)
  have "event_wait env e s = event_wait env e (env s)"
    using now by (subst event_wait.simps) simp
  with ih show ?case by (simp add: funpow_swap1)
qed

lemma event_wait_Some:
  assumes "event_wait env e s = Some s'"
  shows "\<exists>n. s' = (env ^^ n) s \<and> events s' e"
proof (rule event_wait.raw_induct
    [where P = "\<lambda>env e s s'. \<exists>n. s' = (env ^^ n) s \<and> events s' e", OF _ assms])
  fix wait :: "(manager \<Rightarrow> manager) \<Rightarrow> nat \<Rightarrow> manager \<Rightarrow> manager option"
  fix env e s s'
  assume ih: "\<And>env e s s'. wait env e s = Some s' \<Longrightarrow> \<exists>n. s' = (env ^^ n) s \<and> events s' e"
    and eq: "(if events s e then Some s else wait env e (env s)) = Some s'"
  show "\<exists>n. s' = (env ^^ n) s \<and> events s' e"
  proof (cases "events s e")
    case True
    with eq have "s' = (env ^^ 0) s \<and> events s' e" by simp
    then show ?thesis by blast
  next
    case False
    with eq have "wait env e (env s) = Some s'" by simp
    from ih [OF this] obtain n where "s' = (env ^^ n) (env s) \<and> events s' e" by blast
    then have "s' = (env ^^ Suc n) s \<and> events s' e" by (auto simp add: funpow_swap1)
    then show ?thesis by blast
  qed
qed

lemma event_wait_never:
  assumes "\<forall>k. \<not> events ((env ^^ k) s) e"
  shows "event_wait env e s = None"
proof (cases "event_wait env e s")
  case None
  then show ?thesis .
next
  case (Some s')
  from event_wait_Some [OF this] assms show ?thesis by auto
qed

lemma queue_get_nonempty:
  "queues s q = x # xs \<Longrightarrow> queue_get env q s = Some (x, s\<lparr>queues := (queues s)(q := xs)\<rparr>)"
  by (subst queue_get.simps) simp

subsection \<open>Resolution inside \<^verbatim>\<open>ask\<close>\<close>

lemma get_bot_data_cases:
  obtains (local) bd where "map_of (pool s) u = Some bd" and "get_bot_data pk now u s = (Inr bd, s)"
  | (missing) "map_of (pool s) u = None"
      and "get_bot_data pk now u s = (Inl SessionNotFound, s\<lparr>db_queries := Suc (db_queries s)\<rparr>)"
  | (unpickled) t where "map_of (pool s) u = None" and "pool t = pool s"
      and "get_bot_data pk now u s = (Inl UnpicklingError, t)"
  | (started) bd t r t' where "map_of (pool s) u = None" and "pool t = pool s @ [(u, bd)]"
      and "set_bot_in_instance_redis u t = (r, t')"
      and "get_bot_data pk now u s = (case r of Inl e \<Rightarrow> (Inl e, t') | Inr x \<Rightarrow> (Inr bd, t'))"
proof (cases "map_of (pool s) u")
  case (Some bd)
  with local [of bd] show ?thesis by (simp add: get_bot_data_local)
next
  case None
  show ?thesis
  proof (cases "kv (redis s) u")
    case (Some snap)
    show ?thesis
    proof (cases "loads pk snap")
      case bad: None
      from unpickled [of s] get_bot_data_unpickled_snapshot [OF \<open>map_of (pool s) u = None\<close> Some bad]
        \<open>map_of (pool s) u = None\<close>
      show ?thesis by simp
    next
      case (Some rb)
      let ?bd = "fst (start_bot_process now rb s)"
      let ?t = "(snd (start_bot_process now rb s))\<lparr>pool := pool s @ [(u, ?bd)]\<rparr>"
      obtain r t' where st: "set_bot_in_instance_redis u ?t = (r, t')"
        by (cases "set_bot_in_instance_redis u ?t")
      show ?thesis
      proof (rule started [of ?t ?bd r t'])
        show "get_bot_data pk now u s = (case r of Inl e \<Rightarrow> (Inl e, t') | Inr x \<Rightarrow> (Inr ?bd, t'))"
          by (simp add: get_bot_data_redis [OF None \<open>kv (redis s) u = Some snap\<close> Some] st)
      qed (simp_all add: None st)
    qed
  next
    case miss: None
    show ?thesis
    proof (cases "database s u")
      case None
      with missing get_bot_data_missing [OF \<open>map_of (pool s) u = None\<close> miss None]
        \<open>map_of (pool s) u = None\<close>
      show ?thesis by blast
    next
      case (Some blob)
      show ?thesis
      proof (cases "loads pk blob")
        case bad: None
        from unpickled [of "s\<lparr>db_queries := Suc (db_queries s)\<rparr>"]
          get_bot_data_unpickled_blob [OF \<open>map_of (pool s) u = None\<close> miss Some bad]
          \<open>map_of (pool s) u = None\<close>
        show ?thesis by simp
      next
        case (Some rb)
        let ?bd = "fst (start_bot_process now rb s)"
        let ?t = "(snd (start_bot_process now rb
                       (snd (set_bot_redis u (dumps pk rb)
                              (s\<lparr>db_queries := Suc (db_queries s)\<rparr>)))))
                  \<lparr>pool := pool s @ [(u, ?bd)]\<rparr>"
        obtain r t' where st: "set_bot_in_instance_redis u ?t = (r, t')"
          by (cases "set_bot_in_instance_redis u ?t")
        show ?thesis
        proof (rule started [of ?t ?bd r t'])
          show "get_bot_data pk now u s = (case r of Inl e \<Rightarrow> (Inl e, t') | Inr x \<Rightarrow> (Inr ?bd, t'))"
            by (simp add: get_bot_data_origin
                [OF \<open>map_of (pool s) u = None\<close> miss \<open>database s u = Some blob\<close> Some] st)
        qed (simp_all add: \<open>map_of (pool s) u = None\<close> st)
      qed
    qed
  qed
qed

lemma get_bot_data_in_pool:
  assumes "get_bot_data pk now u s = (Inr bd, s')"
  shows "map_of (pool s') u = Some bd"
proof (cases rule: get_bot_data_cases [where s = s and u = u and now = now and pk = pk])
  case (local b)
  with assms show ?thesis by simp
next
  case missing
  with assms show ?thesis by simp
next
  case (unpickled t)
  with assms show ?thesis by simp
next
  case (started b t r t')
  from started(4) assms have "r = Inr () \<and> b = bd \<and> t' = s'"
    by (cases r) simp_all
  moreover from same_but_redis_fields [OF set_bot_in_instance_redis_frame(1) [OF started(3)]]
  have "pool t' = pool t" by simp
  ultimately show ?thesis using started(1,2) by (simp add: map_add_def)
qed

lemma get_bot_data_keeps_entries:
  assumes "get_bot_data pk now u s = (r, s')" and "map_of (pool s) v = Some b"
  shows "map_of (pool s') v = Some b"
proof (cases rule: get_bot_data_cases [where s = s and u = u and now = now and pk = pk])
  case (local b)
  with assms show ?thesis by simp
next
  case missing
  with assms show ?thesis by auto
next
  case (unpickled t)
  with assms show ?thesis by auto
next
  case (started bd t r1 t')
  from started(4) assms(1) have "t' = s'"
    by (cases r1) simp_all
  moreover from same_but_redis_fields [OF set_bot_in_instance_redis_frame(1) [OF started(3)]]
  have "pool t' = pool t" by simp
  ultimately have "pool s' = pool s @ [(u, bd)]" using started(2) by simp
  with assms(2) started(1) show ?thesis by (auto simp add: map_add_def split: option.splits)
qed

lemma set_last_time_update_in_pool:
  "map_of (pool s) u = Some bd \<Longrightarrow>
   set_last_time_update u now s =
     (Inr (), s\<lparr>pool := AList.map_entry u (\<lambda>b. b\<lparr>last_time_update := now\<rparr>) (pool s)\<rparr>)"
  by (simp add: set_last_time_update_def)

lemma ask_send_resolved:
  assumes "get_bot_data pk now0 u s = (Inr bd, s1)"
  shows "ask_send pk now0 now q u s = (Inr (answers_queue bd, new_answer_event bd), asked u bd q now s1)"
proof -
  from get_bot_data_in_pool [OF assms] have hit: "map_of (pool s1) u = Some bd" .
  have again: "get_bot_data pk now0 u t = (Inr bd, t)" if "pool t = pool s1" for t
    using hit that by (simp add: get_bot_data_local)
  have 1: "get_questions_queue pk now0 u s = (Inr (questions_queue bd), s1)"
    by (simp add: get_questions_queue_def assms)
  have 2: "get_answers_queue pk now0 u s1 = (Inr (answers_queue bd), s1)"
    by (simp add: get_answers_queue_def again)
  let ?s3 = "queue_put (questions_queue bd) q s1"
  have 3: "get_new_question_event pk now0 u ?s3 = (Inr (new_question_event bd), ?s3)"
    by (simp add: get_new_question_event_def again queue_put_def)
  let ?s5 = "event_set (new_question_event bd) ?s3"
  have 4: "get_new_answer_event pk now0 u ?s5 = (Inr (new_answer_event bd), ?s5)"
    by (simp add: get_new_answer_event_def again queue_put_def event_set_def)
  have "map_of (pool ?s5) u = Some bd"
    using hit by (simp add: queue_put_def event_set_def)
  note 5 = set_last_time_update_in_pool [OF this, of now]
  show ?thesis
    by (simp add: ask_send_def 1 2 3 4 5) (simp add: asked_def queue_put_def event_set_def)
qed

lemma queue_get_Some:
  assumes "queue_get env q s = Some r"
  shows "\<exists>n xs. queues ((env ^^ n) s) q = fst r # xs
           \<and> snd r = ((env ^^ n) s)\<lparr>queues := (queues ((env ^^ n) s))(q := xs)\<rparr>"
proof (rule queue_get.raw_induct
    [where P = "\<lambda>env q s r. \<exists>n xs. queues ((env ^^ n) s) q = fst r # xs
           \<and> snd r = ((env ^^ n) s)\<lparr>queues := (queues ((env ^^ n) s))(q := xs)\<rparr>",
      OF _ assms])
  fix get :: "(manager \<Rightarrow> manager) \<Rightarrow> nat \<Rightarrow> manager \<Rightarrow> (string \<times> manager) option"
  fix env q s r
  assume ih: "\<And>env q s r. get env q s = Some r \<Longrightarrow>
        \<exists>n xs. queues ((env ^^ n) s) q = fst r # xs
           \<and> snd r = ((env ^^ n) s)\<lparr>queues := (queues ((env ^^ n) s))(q := xs)\<rparr>"
    and eq: "(case queues s q of [] \<Rightarrow> get env q (env s)
              | x # xs \<Rightarrow> Some (x, s\<lparr>queues := (queues s)(q := xs)\<rparr>)) = Some r"
  show "\<exists>n xs. queues ((env ^^ n) s) q = fst r # xs
           \<and> snd r = ((env ^^ n) s)\<lparr>queues := (queues ((env ^^ n) s))(q := xs)\<rparr>"
  proof (cases "queues s q")
    case Nil
    with eq have "get env q (env s) = Some r" by simp
    from ih [OF this] obtain n xs where "queues ((env ^^ n) (env s)) q = fst r # xs
           \<and> snd r = ((env ^^ n) (env s))\<lparr>queues := (queues ((env ^^ n) (env s)))(q := xs)\<rparr>"
      by blast
    then have "queues ((env ^^ Suc n) s) q = fst r # xs
           \<and> snd r = ((env ^^ Suc n) s)\<lparr>queues := (queues ((env ^^ Suc n) s))(q := xs)\<rparr>"
      by (simp add: funpow_swap1)
    then show ?thesis by blast
  next
    case (Cons y ys)
    with eq have "queues ((env ^^ 0) s) q = fst r # ys
           \<and> snd r = ((env ^^ 0) s)\<lparr>queues := (queues ((env ^^ 0) s))(q := ys)\<rparr>"
      by auto
    then show ?thesis by blast
  qed
qed

lemma funpow_keeps_pool:
  fixes env :: "manager \<Rightarrow> manager"
  assumes "\<forall>t. pool (env t) = pool t"
  shows "pool ((env ^^ n) s) = pool s"
proof (induction n)
  case 0
  show ?case by simp
next
  case (Suc n)
  have "pool ((env ^^ Suc n) s) = pool (env ((env ^^ n) s))" by simp
  also have "\<dots> = pool ((env ^^ n) s)" using assms by blast
  finally show ?case using Suc by simp
qed

lemma ask_keeps_entry:
  assumes res: "get_bot_data pk now0 u s = (Inr bd, s1)"
    and env: "\<forall>t. pool (env t) = pool t"
    and ret: "ask env pk now0 now q u s = Some (r, s')"
  shows "map_of (pool s') u = Some (bd\<lparr>last_time_update := now\<rparr>)"
proof -
  let ?sent = "asked u bd q now s1"
  have send: "ask_send pk now0 now q u s = (Inr (answers_queue bd, new_answer_event bd), ?sent)"
    by (rule ask_send_resolved [OF res])
  have sent: "map_of (pool ?sent) u = Some (bd\<lparr>last_time_update := now\<rparr>)"
    using get_bot_data_in_pool [OF res] by (simp add: asked_def map_of_map_entry)
  from ret send obtain s2 a where w: "event_wait env (new_answer_event bd) ?sent = Some s2"
    and g: "queue_get env (answers_queue bd) (event_clear (new_answer_event bd) s2) = Some (a, s')"
    by (auto simp add: ask_def ask_receive_def split: option.splits)
  from event_wait_Some [OF w] obtain n where "s2 = (env ^^ n) ?sent" by blast
  with env have p2: "pool s2 = pool ?sent" by (simp add: funpow_keeps_pool)
  from queue_get_Some [OF g] obtain m xs where
    "s' = ((env ^^ m) (event_clear (new_answer_event bd) s2))
            \<lparr>queues := (queues ((env ^^ m) (event_clear (new_answer_event bd) s2)))
                          (answers_queue bd := xs)\<rparr>"
    by auto
  with env have "pool s' = pool (event_clear (new_answer_event bd) s2)"
    by (simp add: funpow_keeps_pool)
  with p2 sent show ?thesis by (simp add: event_clear_def)
qed

lemma worker_step_pool: "pool (worker_step engine pid t) = pool t"
  by (simp add: worker_step_def queue_put_def event_set_def event_clear_def
      split: option.splits list.splits)

lemma ask_returns:
  assumes "get_bot_data pk now0 u s = (Inr bd, s1)"
    and "\<forall>k<n. \<not> events ((env ^^ k) (asked u bd q now s1)) (new_answer_event bd)"
    and "events ((env ^^ n) (asked u bd q now s1)) (new_answer_event bd)"
    and "queues ((env ^^ n) (asked u bd q now s1)) (answers_queue bd) = x # xs"
  shows "ask env pk now0 now q u s =
          Some (Inr x, ((env ^^ n) (asked u bd q now s1))
                         \<lparr>events := (events ((env ^^ n) (asked u bd q now s1)))
                                       (new_answer_event bd := False),
                          queues := (queues ((env ^^ n) (asked u bd q now s1)))
                                       (answers_queue bd := xs)\<rparr>)"
proof -
  let ?sent = "asked u bd q now s1"
  have send: "ask_send pk now0 now q u s = (Inr (answers_queue bd, new_answer_event bd), ?sent)"
    by (rule ask_send_resolved [OF assms(1)])
  from assms(2,3) have w: "event_wait env (new_answer_event bd) ?sent = Some ((env ^^ n) ?sent)"
    by (rule event_wait_returns)
  from assms(4) have "queues (event_clear (new_answer_event bd) ((env ^^ n) ?sent)) (answers_queue bd)
      = x # xs"
    by (simp add: event_clear_def)
  note g = queue_get_nonempty [OF this, of env]
  show ?thesis
    by (simp add: ask_def send ask_receive_def w g) (simp add: event_clear_def)
qed

text \<open>
  Claim C2. After a successful resolution, \<^verbatim>\<open>ask\<close> reaches its wait in the state \<open>asked\<close>:
  the question is enqueued on the entry's questions queue, the question event is set and
  the entry's \<^verbatim>\<open>last_time_update\<close> is the current time. It then waits for as many steps of
  the rest of the system as it takes for the answer event to be set, whatever that number;
  when the event is set and the answers queue is not empty it clears the event and returns
  the first item of the queue, which it removes: the state it returns in is the one in
  which the event was found set, with the answer event not set any more and the answers
  queue without its first item, and nothing else changed. If the event is never set, the
  call never returns. Resolution leaves every entry that was in the pool as it was, its
  \<^verbatim>\<open>last_time_update\<close> included.
\<close>

theorem ask_protocol:
  assumes "get_bot_data pk now0 u s = (Inr bd, s1)"
  shows "ask_send pk now0 now q u s
           = (Inr (answers_queue bd, new_answer_event bd), asked u bd q now s1)
    \<and> map_of (pool (asked u bd q now s1)) u = Some (bd\<lparr>last_time_update := now\<rparr>)
    \<and> ((\<forall>k<n. \<not> events ((env ^^ k) (asked u bd q now s1)) (new_answer_event bd))
        \<and> events ((env ^^ n) (asked u bd q now s1)) (new_answer_event bd)
        \<and> queues ((env ^^ n) (asked u bd q now s1)) (answers_queue bd) = x # xs
       \<longrightarrow> ask env pk now0 now q u s =
             Some (Inr x, ((env ^^ n) (asked u bd q now s1))
                            \<lparr>events := (events ((env ^^ n) (asked u bd q now s1)))
                                          (new_answer_event bd := False),
                             queues := (queues ((env ^^ n) (asked u bd q now s1)))
                                          (answers_queue bd := xs)\<rparr>)
           \<and> (\<exists>s'. ask env pk now0 now q u s = Some (Inr x, s')
                  \<and> \<not> events s' (new_answer_event bd)
                  \<and> queues s' (answers_queue bd) = xs))
    \<and> ((\<forall>k. \<not> events ((env ^^ k) (asked u bd q now s1)) (new_answer_event bd))
       \<longrightarrow> ask env pk now0 now q u s = None)
    \<and> (\<forall>v b. map_of (pool s) v = Some b \<longrightarrow> map_of (pool s1) v = Some b)"
proof (intro conjI impI allI)
  let ?sent = "asked u bd q now s1"
  let ?final = "((env ^^ n) ?sent)
                  \<lparr>events := (events ((env ^^ n) ?sent))(new_answer_event bd := False),
                   queues := (queues ((env ^^ n) ?sent))(answers_queue bd := xs)\<rparr>"
  show send: "ask_send pk now0 now q u s = (Inr (answers_queue bd, new_answer_event bd), ?sent)"
    by (rule ask_send_resolved [OF assms])
  show "map_of (pool ?sent) u = Some (bd\<lparr>last_time_update := now\<rparr>)"
    using get_bot_data_in_pool [OF assms] by (simp add: asked_def map_of_map_entry)
  show ret: "ask env pk now0 now q u s = Some (Inr x, ?final)"
    if "(\<forall>k<n. \<not> events ((env ^^ k) ?sent) (new_answer_event bd))
        \<and> events ((env ^^ n) ?sent) (new_answer_event bd)
        \<and> queues ((env ^^ n) ?sent) (answers_queue bd) = x # xs"
    using that by (intro ask_returns [OF assms]) simp_all
  show "\<exists>s'. ask env pk now0 now q u s = Some (Inr x, s')
          \<and> \<not> events s' (new_answer_event bd) \<and> queues s' (answers_queue bd) = xs"
    if "(\<forall>k<n. \<not> events ((env ^^ k) ?sent) (new_answer_event bd))
        \<and> events ((env ^^ n) ?sent) (new_answer_event bd)
        \<and> queues ((env ^^ n) ?sent) (answers_queue bd) = x # xs"
    using ret [OF that] by simp
  show "ask env pk now0 now q u s = None"
    if "\<forall>k. \<not> events ((env ^^ k) ?sent) (new_answer_event bd)"
    using event_wait_never [OF that] by (simp add: ask_def send ask_receive_def)
  show "map_of (pool s1) v = Some b" if "map_of (pool s) v = Some b" for v b
    using get_bot_data_keeps_entries [OF assms that] .
qed

text \<open>
  Claim C8. For a key that is in neither the pool, the store nor the database, resolution
  raises the not-found error of the database after one query, and \<^verbatim>\<open>ask\<close> hands the same
  error to its caller without a second query. The state differs from the one before in
  the count of queries only: the pool has no entry for the key.
\<close>

theorem get_bot_data_unknown:
  assumes "map_of (pool s) u = None" and "kv (redis s) u = None" and "database s u = None"
  shows "get_bot_data pk now0 u s = (Inl SessionNotFound, s\<lparr>db_queries := Suc (db_queries s)\<rparr>)
    \<and> ask env pk now0 now q u s = Some (Inl SessionNotFound, s\<lparr>db_queries := Suc (db_queries s)\<rparr>)
    \<and> pool (s\<lparr>db_queries := Suc (db_queries s)\<rparr>) = pool s"
proof -
  note m = get_bot_data_missing [OF assms]
  have "ask_send pk now0 now q u s = (Inl SessionNotFound, s\<lparr>db_queries := Suc (db_queries s)\<rparr>)"
    by (simp add: ask_send_def get_questions_queue_def m)
  then show ?thesis by (simp add: m ask_def)
qed

text \<open>
  Claim C1. Resolution consults the three tiers in order and the first hit wins. A key in
  the pool is answered with its entry and the state stays as it is. For a key that is not
  in the pool and whose snapshot is in the store, the snapshot is unpickled, a new worker
  is started from the unpickled bot, its entry is appended to the pool and ownership is
  published, and the database is not queried; when the value found in the store is not a
  pickle, the call raises, and nothing is started, inserted, published or queried. Only
  when both miss is the database queried; the blob is unpickled, the pickled bot is written
  to the store (when the store accepts the write), the worker started, the entry appended
  and ownership published; when the blob is not a pickle the call raises after the query
  with nothing written, started or inserted. When the publication is refused the call
  raises with the snapshot already written and the entry already in the pool. A key
  resolved once is resolved again to the same entry, hence the same worker, with no change
  of state; and when an \<^verbatim>\<open>ask\<close> has returned and nothing has changed the pool meanwhile,
  the next resolution of its key gives the entry of the same worker, stamped with the time
  of that \<^verbatim>\<open>ask\<close>.
\<close>

theorem get_bot_data_tiers:
  "(map_of (pool s) u = Some bd \<longrightarrow> get_bot_data pk now u s = (Inr bd, s))
   \<and> (map_of (pool s) u = None \<and> kv (redis s) u = Some snap \<and> loads pk snap = Some rb
        \<and> claim_accepted s u \<longrightarrow>
        fst (get_bot_data pk now u s) = Inr (fst (start_bot_process now rb s))
        \<and> pool (snd (get_bot_data pk now u s))
             = pool s @ [(u, fst (start_bot_process now rb s))]
        \<and> procs (snd (get_bot_data pk now u s)) (next_obj s + 4) =
             Some \<lparr>proc_questions = next_obj s + 1, proc_answers = next_obj s,
                   proc_new_question = next_obj s + 2, proc_new_answer = next_obj s + 3,
                   proc_bot = rb, proc_state = Running\<rparr>
        \<and> kv (redis (snd (get_bot_data pk now u s))) (bot_key u) = Some (instance_ip s)
        \<and> db_queries (snd (get_bot_data pk now u s)) = db_queries s)
   \<and> (map_of (pool s) u = None \<and> kv (redis s) u = Some snap \<and> loads pk snap = None \<longrightarrow>
        get_bot_data pk now u s = (Inl UnpicklingError, s))
   \<and> (map_of (pool s) u = None \<and> kv (redis s) u = None \<and> database s u = Some blob
        \<and> loads pk blob = Some ob \<and> claim_accepted s u \<longrightarrow>
        fst (get_bot_data pk now u s) = Inr (fst (start_bot_process now ob s))
        \<and> db_queries (snd (get_bot_data pk now u s)) = Suc (db_queries s)
        \<and> (\<not> refused (redis s) u \<longrightarrow>
             kv (redis (snd (get_bot_data pk now u s))) u = Some (dumps pk ob))
        \<and> pool (snd (get_bot_data pk now u s))
             = pool s @ [(u, fst (start_bot_process now ob s))]
        \<and> procs (snd (get_bot_data pk now u s)) (next_obj s + 4) =
             Some \<lparr>proc_questions = next_obj s + 1, proc_answers = next_obj s,
                   proc_new_question = next_obj s + 2, proc_new_answer = next_obj s + 3,
                   proc_bot = ob, proc_state = Running\<rparr>
        \<and> kv (redis (snd (get_bot_data pk now u s))) (bot_key u) = Some (instance_ip s))
   \<and> (map_of (pool s) u = None \<and> kv (redis s) u = None \<and> database s u = Some blob
        \<and> loads pk blob = None \<longrightarrow>
        get_bot_data pk now u s = (Inl UnpicklingError, s\<lparr>db_queries := Suc (db_queries s)\<rparr>))
   \<and> (map_of (pool s) u = None \<and> kv (redis s) u = None \<and> database s u = Some blob
        \<and> loads pk blob = Some ob \<and> refused (redis s) (bot_key u) \<longrightarrow>
        fst (get_bot_data pk now u s) = Inl (ValueError ''Error save bot in instance redis'')
        \<and> (\<not> refused (redis s) u \<longrightarrow>
             kv (redis (snd (get_bot_data pk now u s))) u = Some (dumps pk ob))
        \<and> pool (snd (get_bot_data pk now u s))
             = pool s @ [(u, fst (start_bot_process now ob s))])
   \<and> (get_bot_data pk now u s = (Inr bd, s') \<longrightarrow> get_bot_data pk now2 u s' = (Inr bd, s'))
   \<and> (get_bot_data pk now u s = (Inr bd, s') \<and> (\<forall>t. pool (env t) = pool t)
        \<and> ask env pk now now1 q u s = Some (r, s2) \<longrightarrow>
        get_bot_data pk now2 u s2 = (Inr (bd\<lparr>last_time_update := now1\<rparr>), s2)
        \<and> bot_instance (bd\<lparr>last_time_update := now1\<rparr>) = bot_instance bd)"
proof (intro conjI)
  show "map_of (pool s) u = Some bd \<longrightarrow> get_bot_data pk now u s = (Inr bd, s)"
    by (simp add: get_bot_data_local)
  show "map_of (pool s) u = None \<and> kv (redis s) u = Some snap \<and> loads pk snap = None \<longrightarrow>
        get_bot_data pk now u s = (Inl UnpicklingError, s)"
    by (simp add: get_bot_data_unpickled_snapshot)
  show "map_of (pool s) u = None \<and> kv (redis s) u = None \<and> database s u = Some blob
        \<and> loads pk blob = None \<longrightarrow>
        get_bot_data pk now u s = (Inl UnpicklingError, s\<lparr>db_queries := Suc (db_queries s)\<rparr>)"
    by (simp add: get_bot_data_unpickled_blob)
  show "get_bot_data pk now u s = (Inr bd, s') \<longrightarrow> get_bot_data pk now2 u s' = (Inr bd, s')"
    by (simp add: get_bot_data_again)
  show "get_bot_data pk now u s = (Inr bd, s') \<and> (\<forall>t. pool (env t) = pool t)
        \<and> ask env pk now now1 q u s = Some (r, s2) \<longrightarrow>
        get_bot_data pk now2 u s2 = (Inr (bd\<lparr>last_time_update := now1\<rparr>), s2)
        \<and> bot_instance (bd\<lparr>last_time_update := now1\<rparr>) = bot_instance bd"
    using ask_keeps_entry [where ?now0.0 = now and u = u and s = s and bd = bd and ?s1.0 = s'
        and env = env and now = now1 and q = q and r = r and s' = s2 and pk = pk]
    by (auto intro: get_bot_data_local)
qed (simp_all add: get_bot_data_redis_tier get_bot_data_origin_tier get_bot_data_origin_unpublished)

section \<open>The sample states, evaluated\<close>

lemma started_eval:
  "started =
     \<lparr>pool = [], instance_ip = ''10.0.0.1'',
      redis = \<lparr>kv = [''SERVER-10.0.0.1'' \<mapsto> [], ''SERVERS_INSTANCES_AVAILABLES'' \<mapsto> ''10.0.0.1'',
                   ''SERVER-ALIVE-10.0.0.1'' \<mapsto> ''True''],
               expire = [''SERVER-ALIVE-10.0.0.1'' \<mapsto> 70], refused = (\<lambda>_. False)\<rparr>,
      database = [''s1'' \<mapsto> ''model-1'', ''s2'' \<mapsto> ''model-2''], db_queries = 0,
      queues = (\<lambda>_. []), events = (\<lambda>_. False), procs = Map.empty, next_obj = 10, timers = 1\<rparr>"
  by (simp add: started_def new_manager_def empty_redis_def eval_defs)

theorem set_bot_in_instance_redis_spec_witness:
  "set_bot_in_instance_redis ''s1'' (refusing ''BOT-s1'' started)
     = (Inl (ValueError ''Error save bot in instance redis''), refusing ''BOT-s1'' started)
   \<and> fst (set_bot_in_instance_redis ''s1'' started) = Inr ()
   \<and> kv (redis (snd (set_bot_in_instance_redis ''s1'' started))) ''BOT-s1'' = Some ''10.0.0.1''
   \<and> kv (redis (snd (set_bot_in_instance_redis ''s1'' started))) ''SERVER-10.0.0.1'' = Some ''BOT-s1''
   \<and> fst (set_bot_in_instance_redis ''s1'' (refusing ''SERVER-10.0.0.1'' started)) \<noteq> Inr ()"
proof -
  have bad: "refused (redis (refusing ''BOT-s1'' started)) (bot_key ''s1'')"
    by (simp add: refusing_def bot_key_def)
  have good: "\<not> refused (redis started) (bot_key ''s1'')
      \<and> kv (redis started) (server_key (instance_ip started)) = Some []
      \<and> \<not> refused (redis started) (server_key (instance_ip started))"
    by (simp add: started_eval bot_key_def server_key_def)
  have half: "refused (redis (refusing ''SERVER-10.0.0.1'' started))
      (server_key (instance_ip (refusing ''SERVER-10.0.0.1'' started)))"
    by (simp add: refusing_def started_eval server_key_def)
  from set_bot_in_instance_redis_spec [of "refusing ''BOT-s1'' started" "''s1''"] bad
  have 1: "set_bot_in_instance_redis ''s1'' (refusing ''BOT-s1'' started)
     = (Inl (ValueError ''Error save bot in instance redis''), refusing ''BOT-s1'' started)"
    by blast
  from set_bot_in_instance_redis_spec [of started "''s1''" "[]"] good
  have 2: "fst (set_bot_in_instance_redis ''s1'' started) = Inr ()
      \<and> kv (redis (snd (set_bot_in_instance_redis ''s1'' started))) (bot_key ''s1'')
           = Some (instance_ip started)
      \<and> kv (redis (snd (set_bot_in_instance_redis ''s1'' started))) (server_key (instance_ip started))
           = Some (str_join (str_split [] @ [bot_key ''s1'']))"
    by blast
  from set_bot_in_instance_redis_spec [of "refusing ''SERVER-10.0.0.1'' started" "''s1''"] half
  have 3: "fst (set_bot_in_instance_redis ''s1'' (refusing ''SERVER-10.0.0.1'' started)) \<noteq> Inr ()"
    by blast
  from 2 have 4: "kv (redis (snd (set_bot_in_instance_redis ''s1'' started))) ''BOT-s1'' = Some ''10.0.0.1''
    \<and> kv (redis (snd (set_bot_in_instance_redis ''s1'' started))) ''SERVER-10.0.0.1'' = Some ''BOT-s1''"
    by (simp add: started_eval bot_key_def server_key_def)
  from 1 2 3 4 show ?thesis by blast
qed

lemma one_session_eval:
  "one_session =
     \<lparr>pool = [(''s1'', entry1)],
      instance_ip = ''10.0.0.1'',
      redis = \<lparr>kv = [''SERVERS_INSTANCES_AVAILABLES'' \<mapsto> ''10.0.0.1'',
                   ''SERVER-ALIVE-10.0.0.1'' \<mapsto> ''True'', ''s1'' \<mapsto> ''snapshot-1'',
                   ''BOT-s1'' \<mapsto> ''10.0.0.1'', ''SERVER-10.0.0.1'' \<mapsto> ''BOT-s1''],
               expire = [''SERVER-ALIVE-10.0.0.1'' \<mapsto> 70, ''BOT-s1'' \<mapsto> 70],
               refused = (\<lambda>_. False)\<rparr>,
      database = [''s1'' \<mapsto> ''model-1'', ''s2'' \<mapsto> ''model-2''], db_queries = 1,
      queues = (\<lambda>_. [])(10 := [], 11 := []),
      events = (\<lambda>_. False)(12 := False, 13 := False),
      procs = [14 \<mapsto> \<lparr>proc_questions = 11, proc_answers = 10, proc_new_question = 12,
                       proc_new_answer = 13, proc_bot = RasaBot ''bot-1'', proc_state = Running\<rparr>],
      next_obj = 15, timers = 1\<rparr>"
  by (simp add: one_session_def started_eval eval_defs)

lemma two_sessions_eval:
  "two_sessions =
     \<lparr>pool = [(''s1'', entry1), (''s2'', entry2)],
      instance_ip = ''10.0.0.1'',
      redis = \<lparr>kv = [''SERVERS_INSTANCES_AVAILABLES'' \<mapsto> ''10.0.0.1'',
                   ''SERVER-ALIVE-10.0.0.1'' \<mapsto> ''True'', ''s1'' \<mapsto> ''snapshot-1'',
                   ''BOT-s1'' \<mapsto> ''10.0.0.1'', ''s2'' \<mapsto> ''snapshot-2'',
                   ''BOT-s2'' \<mapsto> ''10.0.0.1'', ''SERVER-10.0.0.1'' \<mapsto> ''BOT-s1 BOT-s2''],
               expire = [''SERVER-ALIVE-10.0.0.1'' \<mapsto> 70, ''BOT-s1'' \<mapsto> 70, ''BOT-s2'' \<mapsto> 70],
               refused = (\<lambda>_. False)\<rparr>,
      database = [''s1'' \<mapsto> ''model-1'', ''s2'' \<mapsto> ''model-2''], db_queries = 2,
      queues = (\<lambda>_. [])(10 := [], 11 := [], 15 := [], 16 := []),
      events = (\<lambda>_. False)(12 := False, 13 := False, 17 := False, 18 := False),
      procs = [14 \<mapsto> \<lparr>proc_questions = 11, proc_answers = 10, proc_new_question = 12,
                       proc_new_answer = 13, proc_bot = RasaBot ''bot-1'', proc_state = Running\<rparr>,
               19 \<mapsto> \<lparr>proc_questions = 16, proc_answers = 15, proc_new_question = 17,
                       proc_new_answer = 18, proc_bot = RasaBot ''bot-2'', proc_state = Running\<rparr>],
      next_obj = 20, timers = 1\<rparr>"
  by (simp add: two_sessions_def one_session_eval eval_defs)

lemma second_instance_eval:
  "second_instance =
     \<lparr>pool = [], instance_ip = ''10.0.0.2'',
      redis = \<lparr>kv = [''SERVER-ALIVE-10.0.0.1'' \<mapsto> ''True'', ''s1'' \<mapsto> ''snapshot-1'',
                   ''BOT-s1'' \<mapsto> ''10.0.0.1'', ''SERVER-10.0.0.1'' \<mapsto> ''BOT-s1'',
                   ''SERVER-10.0.0.2'' \<mapsto> [],
                   ''SERVERS_INSTANCES_AVAILABLES'' \<mapsto> ''10.0.0.1 10.0.0.2'',
                   ''SERVER-ALIVE-10.0.0.2'' \<mapsto> ''True''],
               expire = [''SERVER-ALIVE-10.0.0.1'' \<mapsto> 70, ''BOT-s1'' \<mapsto> 70,
                         ''SERVER-ALIVE-10.0.0.2'' \<mapsto> 70],
               refused = (\<lambda>_. False)\<rparr>,
      database = Map.empty, db_queries = 0,
      queues = (\<lambda>_. []), events = (\<lambda>_. False), procs = Map.empty, next_obj = 10, timers = 1\<rparr>"
  by (simp add: second_instance_def one_session_eval new_manager_def eval_defs)

lemma shared_session_eval:
  "pool shared_session = [(''s1'', entry1\<lparr>last_time_update := minute\<rparr>)]"
  "instance_ip shared_session = ''10.0.0.2''"
  "procs shared_session 14 =
     Some \<lparr>proc_questions = 11, proc_answers = 10, proc_new_question = 12,
           proc_new_answer = 13, proc_bot = RasaBot ''bot-1'', proc_state = Running\<rparr>"
  "timers shared_session = 1"
  "redis shared_session =
     \<lparr>kv = [''SERVER-ALIVE-10.0.0.1'' \<mapsto> ''True'', ''s1'' \<mapsto> ''snapshot-1'',
            ''SERVER-10.0.0.1'' \<mapsto> ''BOT-s1'',
            ''SERVERS_INSTANCES_AVAILABLES'' \<mapsto> ''10.0.0.1 10.0.0.2'',
            ''SERVER-ALIVE-10.0.0.2'' \<mapsto> ''True'',
            ''BOT-s1'' \<mapsto> ''10.0.0.2'', ''SERVER-10.0.0.2'' \<mapsto> ''BOT-s1''],
      expire = [''SERVER-ALIVE-10.0.0.1'' \<mapsto> 70,
                ''SERVER-ALIVE-10.0.0.2'' \<mapsto> 70, ''BOT-s1'' \<mapsto> 70],
      refused = (\<lambda>_. False)\<rparr>"
  by (simp_all add: shared_session_def second_instance_eval eval_defs)

lemma first_swept_returns:
  "fst (garbage_collector (\<lambda>_. 6 * minute) 50 (one_session\<lparr>redis := redis shared_session\<rparr>))
     = Inr ()"
  by (simp add: shared_session_eval one_session_eval eval_defs)

lemma first_swept_eval:
  "pool first_swept = []"
  "\<not> running first_swept 14"
  "redis first_swept =
     \<lparr>kv = [''s1'' \<mapsto> ''snapshot-1'',
            ''SERVER-ALIVE-10.0.0.2'' \<mapsto> ''True'',
            ''SERVER-10.0.0.2'' \<mapsto> ''BOT-s1'',
            ''SERVER-ALIVE-10.0.0.1'' \<mapsto> ''True'',
            ''SERVER-10.0.0.1'' \<mapsto> [],
            ''SERVERS_INSTANCES_AVAILABLES'' \<mapsto> ''10.0.0.1 10.0.0.2''],
      expire = [''SERVER-ALIVE-10.0.0.2'' \<mapsto> 70, ''SERVER-ALIVE-10.0.0.1'' \<mapsto> 70],
      refused = (\<lambda>_. False)\<rparr>"
  by (simp_all add: first_swept_def shared_session_eval one_session_eval eval_defs running_def)

section \<open>The claims at the sample states\<close>

lemma two_sessions_sweepable: "sweepable (\<lambda>_. 6 * minute) two_sessions"
  by (simp add: sweepable_def two_sessions_eval server_bots_def word_def fresh_def
      bot_key_def server_key_def isspace_def entry1_def entry2_def minute_def five_minutes_def)

theorem garbage_collector_spec_witness:
  "fst (garbage_collector (\<lambda>_. 6 * minute) 50 two_sessions) = Inr ()
   \<and> pool (snd (garbage_collector (\<lambda>_. 6 * minute) 50 two_sessions)) = [(''s2'', entry2)]
   \<and> kv (redis (snd (garbage_collector (\<lambda>_. 6 * minute) 50 two_sessions))) ''BOT-s1'' = None
   \<and> \<not> running (snd (garbage_collector (\<lambda>_. 6 * minute) 50 two_sessions)) 14
   \<and> kv (redis (snd (garbage_collector (\<lambda>_. 6 * minute) 50 two_sessions))) ''BOT-s2''
        = Some ''10.0.0.1''
   \<and> expire (redis (snd (garbage_collector (\<lambda>_. 6 * minute) 50 two_sessions))) ''BOT-s2''
        = Some 70"
proof -
  have d: "distinct (map fst (pool two_sessions))"
    by (simp add: two_sessions_eval)
  note t = garbage_collector_spec [OF d, of "\<lambda>_. 6 * minute" 50
      "snd (garbage_collector (\<lambda>_. 6 * minute) 50 two_sessions)"]
  from t two_sessions_sweepable
  have r: "fst (garbage_collector (\<lambda>_. 6 * minute) 50 two_sessions) = Inr ()"
    by blast
  then have "garbage_collector (\<lambda>_. 6 * minute) 50 two_sessions
     = (Inr (), snd (garbage_collector (\<lambda>_. 6 * minute) 50 two_sessions))"
    by (simp add: prod_eq_iff)
  with t have e: "pool (snd (garbage_collector (\<lambda>_. 6 * minute) 50 two_sessions))
        = filter (fresh (\<lambda>_. 6 * minute)) (pool two_sessions)
      \<and> (\<forall>(uuid, b) \<in> set (pool two_sessions).
            if fresh (\<lambda>_. 6 * minute) (uuid, b)
            then map_of (pool (snd (garbage_collector (\<lambda>_. 6 * minute) 50 two_sessions))) uuid
                   = Some b
                 \<and> kv (redis (snd (garbage_collector (\<lambda>_. 6 * minute) 50 two_sessions)))
                     (bot_key uuid) = Some (instance_ip two_sessions)
                 \<and> expire (redis (snd (garbage_collector (\<lambda>_. 6 * minute) 50 two_sessions)))
                     (bot_key uuid) = Some 70
            else map_of (pool (snd (garbage_collector (\<lambda>_. 6 * minute) 50 two_sessions))) uuid
                   = None
                 \<and> kv (redis (snd (garbage_collector (\<lambda>_. 6 * minute) 50 two_sessions)))
                     (bot_key uuid) = None
                 \<and> \<not> running (snd (garbage_collector (\<lambda>_. 6 * minute) 50 two_sessions))
                     (bot_instance b))"
    by blast
  have p: "pool two_sessions = [(''s1'', entry1), (''s2'', entry2)]"
    and ip: "instance_ip two_sessions = ''10.0.0.1''"
    by (simp_all add: two_sessions_eval)
  from r e show ?thesis
    by (simp add: p ip fresh_def entry1_def entry2_def minute_def five_minutes_def bot_key_def)
qed

text \<open>
  Claim C3 as stated fails: it is not for every state of the pool. Two instances serve the
  session \<open>s1\<close>; no key runs out and the store refuses nothing. The instance 10.0.0.1, idle
  on \<open>s1\<close> for six minutes, has swept: that sweep ran to its end, evicted \<open>s1\<close> there and
  deleted its owner key, which 10.0.0.2 had written. One minute later 10.0.0.2 sweeps with
  \<open>s1\<close> idle for six minutes in its own pool: the release finds no owner key to delete and
  raises. The sweep ends with that error; the stale session is still in the pool, which is
  not the pool of the fresh entries, its worker still runs, and no timer has been started.
\<close>

theorem garbage_collector_shared_session_counterexample:
  "fst (garbage_collector (\<lambda>_. 6 * minute) 50 (one_session\<lparr>redis := redis shared_session\<rparr>))
     = Inr ()
   \<and> pool second_later = [(''s1'', entry1\<lparr>last_time_update := minute\<rparr>)]
   \<and> distinct (map fst (pool second_later))
   \<and> refused (redis second_later) = (\<lambda>_. False)
   \<and> \<not> fresh (\<lambda>_. 7 * minute) (''s1'', entry1\<lparr>last_time_update := minute\<rparr>)
   \<and> filter (fresh (\<lambda>_. 7 * minute)) (pool second_later) = []
   \<and> fst (garbage_collector (\<lambda>_. 7 * minute) 50 second_later)
        = Inl (ValueError ''Error remove bot in instance redis'')
   \<and> pool (snd (garbage_collector (\<lambda>_. 7 * minute) 50 second_later))
        = [(''s1'', entry1\<lparr>last_time_update := minute\<rparr>)]
   \<and> running (snd (garbage_collector (\<lambda>_. 7 * minute) 50 second_later)) 14
   \<and> timers (snd (garbage_collector (\<lambda>_. 7 * minute) 50 second_later)) = timers second_later"
proof -
  have "garbage_collector (\<lambda>_. 7 * minute) 50 second_later
     = (Inl (ValueError ''Error remove bot in instance redis''),
        snd (set_server_alive second_later))"
    by (simp add: second_later_def first_swept_eval shared_session_eval eval_defs)
  moreover have "pool (snd (set_server_alive second_later))
        = [(''s1'', entry1\<lparr>last_time_update := minute\<rparr>)]"
    and "running (snd (set_server_alive second_later)) 14"
    and "timers (snd (set_server_alive second_later)) = timers second_later"
    and "pool second_later = [(''s1'', entry1\<lparr>last_time_update := minute\<rparr>)]"
    and "refused (redis second_later) = (\<lambda>_. False)"
    by (simp_all add: second_later_def first_swept_eval shared_session_eval
        set_server_alive_def redis_set_def running_def)
  moreover have "\<not> fresh (\<lambda>_. 7 * minute) (''s1'', entry1\<lparr>last_time_update := minute\<rparr>)"
    by (simp add: fresh_def minute_def five_minutes_def)
  ultimately show ?thesis
    by (simp add: first_swept_returns)
qed

text \<open>
  Claim C5 as stated fails. Both sessions are stale after ten minutes and the owner key of
  the first has run out: its release raises. The sweep ends with that error; the second
  session is still in the pool, its owner key is still in the store, its worker still
  runs, and no timer has been started.
\<close>

theorem garbage_collector_continues_counterexample:
  "fst (garbage_collector (\<lambda>_. 10 * minute) 50 (lapsed ''BOT-s1'' two_sessions))
     = Inl (ValueError ''Error remove bot in instance redis'')
   \<and> pool (snd (garbage_collector (\<lambda>_. 10 * minute) 50 (lapsed ''BOT-s1'' two_sessions)))
     = [(''s1'', entry1), (''s2'', entry2)]
   \<and> \<not> fresh (\<lambda>_. 10 * minute) (''s2'', entry2)
   \<and> kv (redis (snd (garbage_collector (\<lambda>_. 10 * minute) 50 (lapsed ''BOT-s1'' two_sessions))))
        ''BOT-s2'' = Some ''10.0.0.1''
   \<and> running (snd (garbage_collector (\<lambda>_. 10 * minute) 50 (lapsed ''BOT-s1'' two_sessions))) 19
   \<and> timers (lapsed ''BOT-s1'' two_sessions) = 1
   \<and> timers (snd (garbage_collector (\<lambda>_. 10 * minute) 50 (lapsed ''BOT-s1'' two_sessions))) = 1"
proof -
  have "garbage_collector (\<lambda>_. 10 * minute) 50 (lapsed ''BOT-s1'' two_sessions)
     = (Inl (ValueError ''Error remove bot in instance redis''),
        snd (set_server_alive (lapsed ''BOT-s1'' two_sessions)))"
    by (simp add: lapsed_def two_sessions_eval eval_defs)
  then show ?thesis
    by (simp add: lapsed_def two_sessions_eval set_server_alive_def redis_set_def
        server_alive_key_def fresh_def running_def entry2_def minute_def five_minutes_def)
qed

theorem garbage_collector_aborts_witness:
  "fst (garbage_collector (\<lambda>_. 10 * minute) 50 (lapsed ''BOT-s2'' two_sessions))
     = Inl (ValueError ''Error remove bot in instance redis'')
   \<and> pool (snd (garbage_collector (\<lambda>_. 10 * minute) 50 (lapsed ''BOT-s2'' two_sessions)))
     = [(''s1'', entry1), (''s2'', entry2)]
   \<and> timers (snd (garbage_collector (\<lambda>_. 10 * minute) 50 (lapsed ''BOT-s2'' two_sessions))) = 1
   \<and> \<not> running (snd (garbage_collector (\<lambda>_. 10 * minute) 50 (lapsed ''BOT-s2'' two_sessions))) 14"
proof -
  let ?s = "lapsed ''BOT-s2'' two_sessions"
  let ?now = "\<lambda>_ :: string. 10 * minute"
  let ?s1 = "snd (set_server_alive ?s)"
  let ?s2 = "snd (gc_loop ?now [(''s1'', entry1)] [] ?s1)"
  have a: "pool ?s = [(''s1'', entry1)] @ (''s2'', entry2) # []"
    by (simp add: lapsed_def two_sessions_eval)
  have b: "set_server_alive ?s = (Inr (), ?s1)"
    by (simp add: lapsed_def two_sessions_eval set_server_alive_def redis_set_def)
  have c: "gc_loop ?now [(''s1'', entry1)] [] ?s1 = (Inr [], ?s2)"
    by (simp add: lapsed_def two_sessions_eval eval_defs)
  have d: "\<not> fresh ?now (''s2'', entry2)"
    by (simp add: fresh_def entry2_def minute_def five_minutes_def)
  have e: "remove_bot_instance_redis ''s2'' ?s2
      = (Inl (ValueError ''Error remove bot in instance redis''), ?s2)"
    by (simp add: lapsed_def two_sessions_eval eval_defs)
  have t: "timers ?s = 1"
    by (simp add: lapsed_def two_sessions_eval)
  have p: "procs ?s2 14 = Some \<lparr>proc_questions = 11, proc_answers = 10, proc_new_question = 12,
      proc_new_answer = 13, proc_bot = RasaBot ''bot-1'', proc_state = Terminated\<rparr>"
    by (simp add: lapsed_def two_sessions_eval eval_defs)
  from garbage_collector_aborts [OF a b c d e, of 50] a t p
  show ?thesis by (simp add: running_def)
qed

text \<open>
  Claim C6 against the code. After the first resolution of \<open>s1\<close> the session list of the
  instance holds the key once. One minute later the session is fresh, the sweep runs to
  its end, and the list holds the key twice.
\<close>

theorem refresh_duplicates_session_key:
  "pool one_session = [(''s1'', entry1)]
   \<and> kv (redis one_session) ''SERVER-10.0.0.1'' = Some ''BOT-s1''
   \<and> fresh (\<lambda>_. minute) (''s1'', entry1)
   \<and> fst (garbage_collector (\<lambda>_. minute) 50 one_session) = Inr ()
   \<and> kv (redis (snd (garbage_collector (\<lambda>_. minute) 50 one_session))) ''SERVER-10.0.0.1''
        = Some ''BOT-s1 BOT-s1''
   \<and> str_split ''BOT-s1 BOT-s1'' = [''BOT-s1'', ''BOT-s1'']"
  by (simp add: one_session_eval eval_defs fresh_def)

text \<open>
  Claim C7 against the code. The instance that was started twice on the same store is
  twice in the list of available instances. At 90 percent of memory in use the update
  returns normally and the instance is still in the list; a second update at the same
  level removes it.
\<close>

theorem set_usage_memory_keeps_duplicate:
  "kv (redis restarted) ''SERVERS_INSTANCES_AVAILABLES'' = Some ''10.0.0.1 10.0.0.1''
   \<and> instance_ip restarted = ''10.0.0.1''
   \<and> fst (set_usage_memory 90 restarted) = Inr ()
   \<and> kv (redis (snd (set_usage_memory 90 restarted))) ''SERVERS_INSTANCES_AVAILABLES''
        = Some ''10.0.0.1''
   \<and> kv (redis (snd (set_usage_memory 90 (snd (set_usage_memory 90 restarted)))))
        ''SERVERS_INSTANCES_AVAILABLES'' = Some ''''"
  by (simp add: restarted_def started_eval new_manager_def empty_redis_def eval_defs)

theorem get_bot_data_unknown_witness:
  "get_bot_data sample_pickle 0 ''s9'' started = (Inl SessionNotFound, started\<lparr>db_queries := 1\<rparr>)
   \<and> ask id sample_pickle 0 1 ''hello'' ''s9'' started = Some (Inl SessionNotFound, started\<lparr>db_queries := 1\<rparr>)
   \<and> pool (started\<lparr>db_queries := 1\<rparr>) = []"
proof -
  have a: "map_of (pool started) ''s9'' = None" and b: "kv (redis started) ''s9'' = None"
    and c: "database started ''s9'' = None" and d: "db_queries started = 0"
    and e: "pool started = []"
    by (simp_all add: started_eval)
  from get_bot_data_unknown [OF a b c, where pk = sample_pickle and ?now0.0 = 0 and env = id
      and now = 1 and q = "''hello''"] d e
  show ?thesis by simp
qed

lemma first_resolution: "get_bot_data sample_pickle 0 ''s1'' started = (Inr entry1, one_session)"
  using one_session_eval
  by (simp add: one_session_def [symmetric] prod_eq_iff started_eval eval_defs)

lemma first_ask:
  "ask (worker_step stub_engine 14) sample_pickle 0 1 ''hello'' ''s1'' started = Some (Inr ''stub-answer'', answered)"
proof -
  let ?sent = "asked ''s1'' entry1 ''hello'' 1 one_session"
  let ?env = "worker_step stub_engine 14"
  have sent: "\<not> events ?sent 13"
    by (simp add: asked_def one_session_eval entry1_def)
  have step: "events (?env ?sent) 13" "queues (?env ?sent) 10 = [''stub-answer'']"
    by (simp_all add: worker_step_def asked_def one_session_eval entry1_def stub_engine_def
        queue_put_def event_set_def event_clear_def)
  have "ask ?env sample_pickle 0 1 ''hello'' ''s1'' started =
      Some (Inr ''stub-answer'',
            ((?env ^^ Suc 0) (asked ''s1'' entry1 ''hello'' 1 one_session))
              \<lparr>events := (events ((?env ^^ Suc 0) (asked ''s1'' entry1 ''hello'' 1 one_session)))
                            (new_answer_event entry1 := False),
               queues := (queues ((?env ^^ Suc 0) (asked ''s1'' entry1 ''hello'' 1 one_session)))
                            (answers_queue entry1 := [])\<rparr>)"
    using sent step by (intro ask_returns [OF first_resolution]) (simp_all add: entry1_def)
  then show ?thesis by (simp add: answered_def entry1_def)
qed

theorem get_bot_data_tiers_witness:
  "get_bot_data sample_pickle 5 ''s1'' one_session = (Inr entry1, one_session)
   \<and> fst (get_bot_data sample_pickle 5 ''s1'' second_instance) = Inr (entry1\<lparr>last_time_update := 5\<rparr>)
   \<and> db_queries (snd (get_bot_data sample_pickle 5 ''s1'' second_instance)) = 0
   \<and> kv (redis (snd (get_bot_data sample_pickle 5 ''s1'' second_instance))) ''BOT-s1'' = Some ''10.0.0.2''
   \<and> get_bot_data sample_pickle 0 ''SERVERS_INSTANCES_AVAILABLES'' started
        = (Inl UnpicklingError, started)
   \<and> fst (get_bot_data sample_pickle 0 ''s1'' started) = Inr entry1
   \<and> db_queries (snd (get_bot_data sample_pickle 0 ''s1'' started)) = 1
   \<and> kv (redis (snd (get_bot_data sample_pickle 0 ''s1'' started))) ''s1'' = Some ''snapshot-1''
   \<and> pool (snd (get_bot_data sample_pickle 0 ''s1'' started)) = [(''s1'', entry1)]
   \<and> get_bot_data sample_pickle 0 ''s3'' (corrupted started)
        = (Inl UnpicklingError, (corrupted started)\<lparr>db_queries := 1\<rparr>)
   \<and> fst (get_bot_data sample_pickle 0 ''s1'' (refusing ''BOT-s1'' started))
        = Inl (ValueError ''Error save bot in instance redis'')
   \<and> pool (snd (get_bot_data sample_pickle 0 ''s1'' (refusing ''BOT-s1'' started))) = [(''s1'', entry1)]
   \<and> get_bot_data sample_pickle 6 ''s1'' (snd (get_bot_data sample_pickle 0 ''s1'' started))
        = (Inr entry1, snd (get_bot_data sample_pickle 0 ''s1'' started))
   \<and> get_bot_data sample_pickle 6 ''s1'' answered = (Inr (entry1\<lparr>last_time_update := 1\<rparr>), answered)"
proof -
  have local: "map_of (pool one_session) ''s1'' = Some entry1"
    by (simp add: one_session_eval)
  have cache: "map_of (pool second_instance) ''s1'' = None
      \<and> kv (redis second_instance) ''s1'' = Some ''snapshot-1''
      \<and> loads sample_pickle ''snapshot-1'' = Some (RasaBot ''bot-1'')
      \<and> claim_accepted second_instance ''s1''"
    by (simp add: second_instance_eval claim_accepted_def bot_key_def server_key_def
        sample_pickle_def)
  have junk: "map_of (pool started) ''SERVERS_INSTANCES_AVAILABLES'' = None
      \<and> kv (redis started) ''SERVERS_INSTANCES_AVAILABLES'' = Some ''10.0.0.1''
      \<and> loads sample_pickle ''10.0.0.1'' = None"
    by (simp add: started_eval sample_pickle_def)
  have origin: "map_of (pool started) ''s1'' = None \<and> kv (redis started) ''s1'' = None
      \<and> database started ''s1'' = Some ''model-1''
      \<and> loads sample_pickle ''model-1'' = Some (RasaBot ''bot-1'')
      \<and> claim_accepted started ''s1''"
    by (simp add: started_eval claim_accepted_def bot_key_def server_key_def sample_pickle_def)
  have damaged: "map_of (pool (corrupted started)) ''s3'' = None
      \<and> kv (redis (corrupted started)) ''s3'' = None
      \<and> database (corrupted started) ''s3'' = Some ''not a pickle''
      \<and> loads sample_pickle ''not a pickle'' = None"
    by (simp add: corrupted_def started_eval sample_pickle_def)
  have unpublished: "map_of (pool (refusing ''BOT-s1'' started)) ''s1'' = None
      \<and> kv (redis (refusing ''BOT-s1'' started)) ''s1'' = None
      \<and> database (refusing ''BOT-s1'' started) ''s1'' = Some ''model-1''
      \<and> loads sample_pickle ''model-1'' = Some (RasaBot ''bot-1'')
      \<and> refused (redis (refusing ''BOT-s1'' started)) (bot_key ''s1'')"
    by (simp add: refusing_def started_eval bot_key_def sample_pickle_def)
  have again: "get_bot_data sample_pickle 0 ''s1'' started
      = (Inr entry1, snd (get_bot_data sample_pickle 0 ''s1'' started))"
    using one_session_eval
    by (simp add: one_session_def [symmetric] prod_eq_iff started_eval eval_defs)
  note t1 = get_bot_data_tiers [where s = one_session and u = "''s1''" and bd = entry1
      and pk = sample_pickle and now = 5]
  note t2 = get_bot_data_tiers [where s = second_instance and u = "''s1''"
      and pk = sample_pickle and now = 5 and snap = "''snapshot-1''" and rb = "RasaBot ''bot-1''"]
  note t3 = get_bot_data_tiers [where s = started and u = "''s1''" and bd = entry1
      and pk = sample_pickle and now = 0 and blob = "''model-1''" and ob = "RasaBot ''bot-1''"
      and s' = "snd (get_bot_data sample_pickle 0 ''s1'' started)" and ?now2.0 = 6]
  note t4 = get_bot_data_tiers [where s = "refusing ''BOT-s1'' started" and u = "''s1''"
      and pk = sample_pickle and now = 0 and blob = "''model-1''" and ob = "RasaBot ''bot-1''"]
  note t5 = get_bot_data_tiers [where s = started and u = "''SERVERS_INSTANCES_AVAILABLES''"
      and pk = sample_pickle and now = 0 and snap = "''10.0.0.1''"]
  note t6 = get_bot_data_tiers [where s = "corrupted started" and u = "''s3''"
      and pk = sample_pickle and now = 0 and blob = "''not a pickle''"]
  from t1 local have 1: "get_bot_data sample_pickle 5 ''s1'' one_session = (Inr entry1, one_session)"
    by blast
  from t2 cache have 2: "fst (get_bot_data sample_pickle 5 ''s1'' second_instance)
        = Inr (fst (start_bot_process 5 (RasaBot ''bot-1'') second_instance))
      \<and> db_queries (snd (get_bot_data sample_pickle 5 ''s1'' second_instance)) = db_queries second_instance
      \<and> kv (redis (snd (get_bot_data sample_pickle 5 ''s1'' second_instance))) (bot_key ''s1'')
           = Some (instance_ip second_instance)"
    by blast
  from t3 origin again have 3: "fst (get_bot_data sample_pickle 0 ''s1'' started)
        = Inr (fst (start_bot_process 0 (RasaBot ''bot-1'') started))
      \<and> db_queries (snd (get_bot_data sample_pickle 0 ''s1'' started)) = Suc (db_queries started)
      \<and> (\<not> refused (redis started) ''s1'' \<longrightarrow>
           kv (redis (snd (get_bot_data sample_pickle 0 ''s1'' started))) ''s1''
             = Some (dumps sample_pickle (RasaBot ''bot-1'')))
      \<and> pool (snd (get_bot_data sample_pickle 0 ''s1'' started))
           = pool started @ [(''s1'', fst (start_bot_process 0 (RasaBot ''bot-1'') started))]
      \<and> get_bot_data sample_pickle 6 ''s1'' (snd (get_bot_data sample_pickle 0 ''s1'' started))
           = (Inr entry1, snd (get_bot_data sample_pickle 0 ''s1'' started))"
    by blast
  from t4 unpublished have 4: "fst (get_bot_data sample_pickle 0 ''s1'' (refusing ''BOT-s1'' started))
        = Inl (ValueError ''Error save bot in instance redis'')
      \<and> pool (snd (get_bot_data sample_pickle 0 ''s1'' (refusing ''BOT-s1'' started)))
           = pool (refusing ''BOT-s1'' started)
               @ [(''s1'', fst (start_bot_process 0 (RasaBot ''bot-1'')
                                 (refusing ''BOT-s1'' started)))]"
    by blast
  from t5 junk have 6: "get_bot_data sample_pickle 0 ''SERVERS_INSTANCES_AVAILABLES'' started
      = (Inl UnpicklingError, started)"
    by blast
  from t6 damaged have 7: "get_bot_data sample_pickle 0 ''s3'' (corrupted started)
      = (Inl UnpicklingError,
         (corrupted started)\<lparr>db_queries := Suc (db_queries (corrupted started))\<rparr>)"
    by blast
  have e: "fst (start_bot_process 5 (RasaBot ''bot-1'') second_instance)
        = entry1\<lparr>last_time_update := 5\<rparr>"
    "fst (start_bot_process 0 (RasaBot ''bot-1'') started) = entry1"
    "fst (start_bot_process 0 (RasaBot ''bot-1'') (refusing ''BOT-s1'' started)) = entry1"
    by (simp_all add: start_bot_process_entry second_instance_eval started_eval refusing_def
        entry1_def)
  have quiet: "\<forall>t. pool (worker_step stub_engine 14 t) = pool t"
    by (simp add: worker_step_pool)
  from get_bot_data_tiers [where s = started and u = "''s1''" and bd = entry1
      and pk = sample_pickle and now = 0 and s' = one_session and ?now2.0 = 6
      and env = "worker_step stub_engine 14" and ?now1.0 = 1 and q = "''hello''"
      and r = "Inr ''stub-answer''" and ?s2.0 = answered]
    first_resolution quiet first_ask
  have 5: "get_bot_data sample_pickle 6 ''s1'' answered = (Inr (entry1\<lparr>last_time_update := 1\<rparr>), answered)"
    by blast
  have q: "db_queries (corrupted started) = 0"
    by (simp add: corrupted_def started_eval)
  from 1 2 3 4 5 6 7 show ?thesis
    by (simp add: e q) (simp add: second_instance_eval started_eval refusing_def bot_key_def
        sample_pickle_def)
qed

theorem ask_protocol_witness:
  "ask (worker_step stub_engine 14) sample_pickle 0 1 ''hello'' ''s1'' started
     = Some (Inr ''stub-answer'', answered)
   \<and> \<not> events answered 13
   \<and> queues answered 10 = []
   \<and> ask id sample_pickle 0 1 ''hello'' ''s1'' started = None
   \<and> map_of (pool (asked ''s1'' entry1 ''hello'' 1 one_session)) ''s1''
       = Some (entry1\<lparr>last_time_update := 1\<rparr>)
   \<and> queues (asked ''s1'' entry1 ''hello'' 1 one_session) 11 = [''hello'']
   \<and> events (asked ''s1'' entry1 ''hello'' 1 one_session) 12"
proof -
  let ?sent = "asked ''s1'' entry1 ''hello'' 1 one_session"
  let ?env = "worker_step stub_engine 14"
  have res: "get_bot_data sample_pickle 0 ''s1'' started = (Inr entry1, one_session)"
    using one_session_eval
    by (simp add: one_session_def [symmetric] prod_eq_iff started_eval eval_defs)
  have sent: "queues ?sent 11 = [''hello'']" "events ?sent 12" "\<not> events ?sent 13"
    "queues ?sent 10 = []"
    by (simp_all add: asked_def one_session_eval entry1_def)
  have step: "events (?env ?sent) 13 \<and> queues (?env ?sent) 10 = [''stub-answer'']"
    by (simp add: worker_step_def asked_def one_session_eval entry1_def stub_engine_def
        queue_put_def event_set_def event_clear_def)
  have waits: "(\<forall>k<Suc 0. \<not> events ((?env ^^ k) ?sent) (new_answer_event entry1))
      \<and> events ((?env ^^ Suc 0) ?sent) (new_answer_event entry1)
      \<and> queues ((?env ^^ Suc 0) ?sent) (answers_queue entry1) = ''stub-answer'' # []"
    using sent step by (simp add: entry1_def)
  have never: "\<forall>k. \<not> events ((id ^^ k) ?sent) (new_answer_event entry1)"
    using sent by (simp add: entry1_def)
  note t = ask_protocol [OF res, where now = 1 and q = "''hello''"]
  from t [where n = "Suc 0" and env = ?env and x = "''stub-answer''" and xs = "[]"] waits
  have "ask ?env sample_pickle 0 1 ''hello'' ''s1'' started =
      Some (Inr ''stub-answer'',
            ((?env ^^ Suc 0) ?sent)
              \<lparr>events := (events ((?env ^^ Suc 0) ?sent))(new_answer_event entry1 := False),
               queues := (queues ((?env ^^ Suc 0) ?sent))(answers_queue entry1 := [])\<rparr>)"
    by blast
  then have 1: "ask ?env sample_pickle 0 1 ''hello'' ''s1'' started = Some (Inr ''stub-answer'', answered)"
    by (simp add: answered_def entry1_def)
  have 4: "\<not> events answered 13" "queues answered 10 = []"
    by (simp_all add: answered_def)
  from t [where n = 0 and env = id] never
  have 2: "ask id sample_pickle 0 1 ''hello'' ''s1'' started = None"
    by blast
  from t [where n = 0 and env = id]
  have 3: "map_of (pool ?sent) ''s1'' = Some (entry1\<lparr>last_time_update := 1\<rparr>)"
    by blast
  from 1 2 3 4 sent show ?thesis by simp
qed

section \<open>Properties of the interpreter cache\<close>





section \<open>Properties of the evaluation worker\<close>

lemma remove_empty_loop_eq:
  "remove_empty_loop rs filtered = filtered @ map fill_prediction (filter has_target rs)"
proof (induction rs arbitrary: filtered)
  case Nil
  show ?case by simp
next
  case (Cons r rs)
  show ?case
  proof (cases "prediction r")
    case None
    then show ?thesis
      by (simp add: Cons.IH has_target_def fill_prediction_def)
  next
    case (Some p)
    then show ?thesis
      by (simp add: Cons.IH has_target_def fill_prediction_def)
  qed
qed

text \<open>
  Claim C10. For every list of intent results, \<^verbatim>\<open>remove_empty_intent_examples\<close> returns
  exactly the results whose target is neither \<^verbatim>\<open>None\<close> nor the empty string, in their
  original order; the prediction of a returned result is \<^verbatim>\<open>"no predicted"\<close> when it was
  \<^verbatim>\<open>None\<close> and is what it was otherwise, and target, message and confidence are
  unchanged.
\<close>

theorem remove_empty_intent_examples_spec:
  "remove_empty_intent_examples rs = map fill_prediction (filter has_target rs)
   \<and> target (fill_prediction r) = target r
   \<and> message (fill_prediction r) = message r
   \<and> confidence (fill_prediction r) = confidence r
   \<and> prediction (fill_prediction (r\<lparr>prediction := None\<rparr>)) = Some ''no predicted''
   \<and> fill_prediction (r\<lparr>prediction := Some p\<rparr>) = r\<lparr>prediction := Some p\<rparr>"
  by (simp add: remove_empty_intent_examples_def remove_empty_loop_eq fill_prediction_def)

end
